theory Spec2Isabelle
  imports Main "HOL-Library.Word"
begin

section \<open>The debugger unit test of system/utest/debugger/debugger.c\<close>

text \<open>
  The program is one binary with three roles: the test driver (supervisor), the inferior
  (debuggee) and a segfault child. The kernel, the unittest framework and utils.c are
  outside debugger.c: every answer they give is an input of the model (a list of answers
  consumed in order), and every effect the program has on them is recorded in a trace.
\<close>

subsection \<open>Constants (debugger.c lines 22 to 36)\<close>

type_synonym u8 = "8 word"
type_synonym u32 = "32 word"
type_synonym u64 = "64 word"

definition WATCHDOG_DURATION_TICKS :: nat where
  "WATCHDOG_DURATION_TICKS = 10"

definition TEST_MEMORY_SIZE :: nat where
  "TEST_MEMORY_SIZE = 8"

definition TEST_DATA_ADJUST :: u8 where
  "TEST_DATA_ADJUST = 0x10"

definition NUM_SEGV_TRIES :: nat where
  "NUM_SEGV_TRIES = 4"

definition NUM_EXTRA_THREADS :: nat where
  "NUM_EXTRA_THREADS = 4"

text \<open>
  The kernel headers (magenta/syscalls/exception.h, magenta/errors.h, magenta/syscalls/object.h)
  are outside debugger.c, so what debugger.c takes from them is a parameter:
  the two exception-type tests of lines 109 and 112, the status NO_ERROR, the object type
  of a thread and the three sizeof values of debugger_thread_list_test.
\<close>

record magenta_abi =
  MX_EXCP_GONE :: u32
  MX_EXCP_IS_ARCH :: "u32 \<Rightarrow> bool"
  NO_ERROR :: int
  MX_OBJ_TYPE_THREAD :: u32
  sizeof_info_header :: nat
  sizeof_record_process_thread :: nat
  sizeof_info_handle_basic :: nat

subsection \<open>How a function ends\<close>

text \<open>
  A C function of this program returns a value, ends the process through exit(code),
  never comes back from a blocking call, or (the segfault child) dies on a fault.
\<close>

datatype 'a result = Returns 'a | Exits int | Blocks | Crashes

subsection \<open>The inferior's thread as both sides see it\<close>

text \<open>
  The general registers the test uses (r8, r9 and the stack pointer; x8, x9 and sp on
  aarch64, with the same roles) and the byte-addressed memory of the inferior.
\<close>

record general_regs =
  r8 :: u64
  r9 :: u64
  rsp :: u64

record machine =
  regs :: general_regs
  mem :: "u64 \<Rightarrow> u8"

subsection \<open>The unittest macros\<close>

text \<open>
  Modelled from the spec: the macros of unittest.h are missing. The spec has assertion
  failures recorded, a test case reporting failure when one was recorded, and a fatal
  assertion ending the function at once: EXPECT_EQ records a failure and goes on;
  ASSERT_EQ, ASSERT_GE and ASSERT_TRUE record it and return false from the enclosing
  function (line 93: "which does a return on failure"); END_TEST and END_HELPER return
  whether nothing was recorded. The failure messages are the strings of the source.
\<close>

definition EXPECT :: "bool \<Rightarrow> string \<Rightarrow> string list \<Rightarrow> string list" where
  "EXPECT ok msg fails = (if ok then fails else fails @ [msg])"

subsection \<open>Memory access (utils.c, seen through its two calls)\<close>

text \<open>
  Modelled from the spec: read_inferior_memory and write_inferior_memory of utils.c are
  missing. The spec gives read_memory(process, address, length) -> bytes | short-read and
  write_memory(process, address, bytes) -> bytes-written | short-write: the kernel moves
  some number of bytes, at most the requested length, and the call returns that number.
  The number the kernel is willing to move is the argument n.
\<close>

definition read_inferior_memory ::
  "(u64 \<Rightarrow> u8) \<Rightarrow> u64 \<Rightarrow> u8 list \<Rightarrow> nat \<Rightarrow> nat \<Rightarrow> nat \<times> u8 list" where
  "read_inferior_memory m vaddr buf len n =
     (let k = min n len
      in (k, map (\<lambda>i. m (vaddr + of_nat i)) [0..<k] @ drop k buf))"

definition write_inferior_memory ::
  "(u64 \<Rightarrow> u8) \<Rightarrow> u64 \<Rightarrow> u8 list \<Rightarrow> nat \<Rightarrow> nat \<Rightarrow> nat \<times> (u64 \<Rightarrow> u8)" where
  "write_inferior_memory m vaddr buf len n =
     (let k = min n len
      in (k, fold (\<lambda>i m'. m'(vaddr + of_nat i := buf ! i)) [0..<k] m))"

subsection \<open>The supervisor\<close>

text \<open>
  What the supervisor asks of the kernel, in order. The wait-inf thread and the test share
  the failure list of the running test.
\<close>

datatype syscall =
    Port_wait
  | Object_get_child u64
  | Read_memory u64 nat
  | Write_memory u64 "u8 list"
  | Set_r8 u64
  | Task_resume
  | Handle_close

record supervisor =
  debuggee :: machine
  failures :: "string list"
  syscalls :: "syscall list"

text \<open>
  One exception notification with the kernel's answers to the calls of one loop iteration:
  the status of mx_port_wait and the packet's type and tid, the status of
  mx_object_get_child, the state in which the thread of the packet is suspended, the
  content of the uninitialised local test_data, the byte counts the kernel moves for the
  read and the write, and the status of mx_task_resume.
\<close>

record excp_event =
  wait_status :: int
  excp_type :: u32
  excp_tid :: u64
  child_status :: int
  suspended :: machine
  uninit_test_data :: "u8 list"
  nread :: nat
  nwritten :: nat
  resume_status :: int

text \<open>The local array uint8_t test_data[TEST_MEMORY_SIZE] before anything is stored in it.\<close>

definition local_test_data :: "u8 list \<Rightarrow> u8 list" where
  "local_test_data garbage = take TEST_MEMORY_SIZE (garbage @ replicate TEST_MEMORY_SIZE 0)"

text \<open>
  test_memory_ops, lines 45 to 72, on x86-64 and aarch64: the address of the buffer is
  read from r9 of the suspended thread.
\<close>

definition test_memory_ops :: "excp_event \<Rightarrow> supervisor \<Rightarrow> supervisor" where
  "test_memory_ops e s =
     (let test_data_addr = r9 (regs (debuggee s));
          (ssize, test_data) =
             read_inferior_memory (mem (debuggee s)) test_data_addr
               (local_test_data (uninit_test_data e)) TEST_MEMORY_SIZE (nread e);
          s = s\<lparr>syscalls := syscalls s @ [Read_memory test_data_addr TEST_MEMORY_SIZE]\<rparr>;
          s = s\<lparr>failures :=
                EXPECT (ssize = TEST_MEMORY_SIZE) ''read_inferior_memory: short read'' (failures s)\<rparr>;
          s = s\<lparr>failures :=
                fold (\<lambda>i. EXPECT (unat (test_data ! i) = i) ''test_memory_ops'')
                  [0..<TEST_MEMORY_SIZE] (failures s)\<rparr>;
          test_data = map (\<lambda>b. b + TEST_DATA_ADJUST) test_data;
          (ssize, m) =
             write_inferior_memory (mem (debuggee s)) test_data_addr test_data
               TEST_MEMORY_SIZE (nwritten e);
          s = s\<lparr>debuggee := (debuggee s)\<lparr>mem := m\<rparr>,
                 syscalls := syscalls s @ [Write_memory test_data_addr test_data]\<rparr>
      in s\<lparr>failures :=
            EXPECT (ssize = TEST_MEMORY_SIZE) ''write_inferior_memory: short write'' (failures s)\<rparr>)"

text \<open>fix_inferior_segv, lines 74 to 91: r8 becomes the stack pointer.\<close>

definition fix_inferior_segv :: "supervisor \<Rightarrow> supervisor" where
  "fix_inferior_segv s =
     (let sp = rsp (regs (debuggee s))
      in s\<lparr>debuggee := (debuggee s)\<lparr>regs := (regs (debuggee s))\<lparr>r8 := sp\<rparr>\<rparr>,
           syscalls := syscalls s @ [Set_r8 sp]\<rparr>)"

text \<open>
  The body of the for loop of wait_inferior_thread_worker, lines 103 to 136, for one
  notification. It ends at its last line (the loop goes on with ++i), by the break of
  line 111, or by the return of a failed ASSERT_EQ. Once line 120 has resolved the thread
  of the packet, debuggee is that thread, in the state it is suspended in. dump_inferior_regs and the
  unittest_printf lines only print and are left out.
\<close>

datatype body_end = Body_next | Body_break | Body_return bool

definition wait_inferior_body ::
  "magenta_abi \<Rightarrow> excp_event \<Rightarrow> supervisor \<Rightarrow> body_end \<times> supervisor" where
  "wait_inferior_body abi e s =
     (let s = s\<lparr>syscalls := syscalls s @ [Port_wait]\<rparr> in
      if wait_status e \<noteq> NO_ERROR abi
      then (Body_return False, s\<lparr>failures := failures s @ [''mx_io_port_wait failed'']\<rparr>)
      else if excp_type e = MX_EXCP_GONE abi
      then (Body_break, s)
      else if \<not> MX_EXCP_IS_ARCH abi (excp_type e)
      then (Body_return False,
            s\<lparr>failures := failures s @ [''wait-inf: unexpected exception type'']\<rparr>)
      else
        (let s = s\<lparr>syscalls := syscalls s @ [Object_get_child (excp_tid e)]\<rparr> in
         if child_status e \<noteq> 0
         then (Body_return False,
               s\<lparr>failures := failures s @ [''mx_debug_task_get_child failed'']\<rparr>)
         else
           (let s = s\<lparr>debuggee := suspended e\<rparr>;
                s = test_memory_ops e s;
                s = fix_inferior_segv s;
                s = s\<lparr>syscalls := syscalls s @ [Task_resume, Handle_close]\<rparr>
            in if resume_status e \<noteq> NO_ERROR abi
               then (Body_return False, s\<lparr>failures := failures s @ [''mx_task_resume failed'']\<rparr>)
               else (Body_next, s))))"

text \<open>
  The for loop of lines 102 to 137, from the value i of the counter. It ends by running
  out (or by break), by a return, or never: mx_port_wait has no timeout, so with no
  notification left the thread blocks. The final i is returned beside the state.
\<close>

datatype loop_end = Loop_done | Loop_return bool | Loop_blocked

fun wait_inferior_loop ::
  "magenta_abi \<Rightarrow> nat \<Rightarrow> excp_event list \<Rightarrow> supervisor \<Rightarrow> loop_end \<times> nat \<times> supervisor" where
  "wait_inferior_loop abi i [] s =
     (if i < NUM_SEGV_TRIES
      then (Loop_blocked, i, s\<lparr>syscalls := syscalls s @ [Port_wait]\<rparr>)
      else (Loop_done, i, s))"
| "wait_inferior_loop abi i (e # es) s =
     (if i < NUM_SEGV_TRIES then
        (case wait_inferior_body abi e s of
           (Body_next, s') \<Rightarrow> wait_inferior_loop abi (Suc i) es s'
         | (Body_break, s') \<Rightarrow> (Loop_done, i, s')
         | (Body_return b, s') \<Rightarrow> (Loop_return b, i, s'))
      else (Loop_done, i, s))"

text \<open>
  wait_inferior_thread_worker, lines 95 to 142: the loop from i = 0, then the assertion
  of line 139 on the final i. The final i is returned beside the result.
\<close>

definition wait_inferior_thread_worker ::
  "magenta_abi \<Rightarrow> excp_event list \<Rightarrow> supervisor \<Rightarrow> bool result \<times> nat \<times> supervisor" where
  "wait_inferior_thread_worker abi es s =
     (case wait_inferior_loop abi 0 es s of
        (Loop_blocked, i, s') \<Rightarrow> (Blocks, i, s')
      | (Loop_return b, i, s') \<Rightarrow> (Returns b, i, s')
      | (Loop_done, i, s') \<Rightarrow>
          (if i = NUM_SEGV_TRIES then (Returns True, i, s')
           else (Returns False, i,
                 s'\<lparr>failures := failures s' @ [''segv tests terminated prematurely'']\<rparr>)))"

subsection \<open>The control channel\<close>

text \<open>
  Modelled from the spec: enum message of utils.h is missing. The spec lists the kinds
  PING, PONG, CRASH, RECOVERED_FROM_CRASH, START_EXTRA_THREADS, EXTRA_THREADS_STARTED and
  DONE, under the names debugger.c uses. recv_msg stores what arrived on the channel, so
  a value outside the enumeration can reach the switch of msg_loop: MSG_OTHER v stands
  for such a value v. send_msg is the event Send of the trace; what recv_msg delivers is
  an input.
\<close>

datatype message =
    MSG_DONE
  | MSG_PING
  | MSG_PONG
  | MSG_CRASH
  | MSG_RECOVERED_FROM_CRASH
  | MSG_START_EXTRA_THREADS
  | MSG_EXTRA_THREADS_STARTED
  | MSG_OTHER int

subsection \<open>A process of the binary\<close>

text \<open>
  What a process does that others can see, in order: lines printed with unittest_printf
  (the format string without its newline, and the arguments), messages sent, threads
  created, stores to the global done_tests, and the report of a failed ASSERT.
\<close>

datatype printf_arg = Arg_nat nat | Arg_u8 u8 | Arg_u32 u32 | Arg_u64 u64 | Arg_msg message

datatype event =
    Print string "printf_arg list"
  | Send message
  | Thread_create string
  | Store_done_tests bool
  | Assert_failure string

record process =
  cpu :: machine
  done_tests :: bool
  trace :: "event list"

definition emit :: "event \<Rightarrow> process \<Rightarrow> process" where
  "emit ev p = p\<lparr>trace := trace p @ [ev]\<rparr>"

text \<open>
  What the inferior is given: its startup handle, the address of the faulting
  instruction, the address the compiler gave the local test_data of test_prep_and_segv,
  and which addresses of its address space a load can read.
\<close>

record inferior_env =
  pipe_handle :: u32
  segv_pc :: u64
  test_data_at :: u64
  readable :: "u64 \<Rightarrow> bool"

text \<open>
  A fault suspends the thread. What happens then is up to the kernel and the supervisor:
  the thread is resumed in some machine state, at the instruction that faulted, or never.
  One such answer is consumed per fault; with none left the thread stays suspended.
\<close>

type_synonym fault_handler = "machine \<Rightarrow> machine option"

subsection \<open>The fault generator\<close>

text \<open>Lines 245 to 247: test_data[i] = i.\<close>

definition seed_test_data :: "u64 \<Rightarrow> (u64 \<Rightarrow> u8) \<Rightarrow> (u64 \<Rightarrow> u8)" where
  "seed_test_data a m = fold (\<lambda>i m'. m'(a + of_nat i := of_nat i)) [0..<TEST_MEMORY_SIZE] m"

text \<open>
  Lines 285 to 291: the first index whose byte is not i + TEST_DATA_ADJUST, if any. The
  comparison is between unsigned values.
\<close>

definition first_bad_index :: "u64 \<Rightarrow> (u64 \<Rightarrow> u8) \<Rightarrow> nat option" where
  "first_bad_index a m =
     find (\<lambda>i. unat (m (a + of_nat i)) \<noteq> i + unat TEST_DATA_ADJUST) [0..<TEST_MEMORY_SIZE]"

text \<open>
  The state in which the thread faults (lines 245 to 263): the buffer seeded, r9 pointing
  at it, r8 zero.
\<close>

definition segv_state :: "inferior_env \<Rightarrow> machine \<Rightarrow> machine" where
  "segv_state env c =
     (let c = c\<lparr>mem := seed_test_data (test_data_at env) (mem c)\<rparr>
      in c\<lparr>regs := (regs c)\<lparr>r9 := test_data_at env, r8 := 0\<rparr>\<rparr>)"

text \<open>
  The load at .Lsegv_here, movq (%r8),%rax (lines 260 and 261; ldr x0,[x8] on aarch64).
  It goes through when the address in r8 is readable. Otherwise the thread faults and is
  suspended; an answer that resumes it makes it execute the same load again, in the state
  it is resumed in. The result says whether the load went through, in which state the
  thread is then (or is left suspended), and which answers are left.
\<close>

fun segv_here ::
  "inferior_env \<Rightarrow> fault_handler list \<Rightarrow> machine \<Rightarrow> bool \<times> machine \<times> fault_handler list" where
  "segv_here env [] c = (readable env (r8 (regs c)), c, [])"
| "segv_here env (f # fs) c =
     (if readable env (r8 (regs c)) then (True, c, f # fs)
      else (case f c of
              None \<Rightarrow> (False, c, fs)
            | Some c' \<Rightarrow> segv_here env fs c'))"

text \<open>
  test_prep_and_segv, lines 243 to 296: the buffer is seeded, the load is executed with
  r8 zero, and once it has gone through the buffer is verified.
\<close>

definition test_prep_and_segv ::
  "inferior_env \<Rightarrow> fault_handler list \<Rightarrow> process \<Rightarrow> bool result \<times> fault_handler list \<times> process" where
  "test_prep_and_segv env fs p =
     (let p = emit (Print ''About to segv, pc 0x%lx'' [Arg_u64 (segv_pc env)]) p;
          c = segv_state env (cpu p)
      in case segv_here env fs c of
           (False, c', fs') \<Rightarrow> (Blocks, fs', p\<lparr>cpu := c'\<rparr>)
         | (True, c', fs') \<Rightarrow>
             (case first_bad_index (test_data_at env) (mem c') of
                Some i \<Rightarrow>
                  (Returns False, fs',
                   emit (Print ''test_prep_and_segv: bad data on resumption, test_data[%u] = 0x%x''
                           [Arg_nat i, Arg_u8 (mem c' (test_data_at env + of_nat i))])
                     (p\<lparr>cpu := c'\<rparr>))
              | None \<Rightarrow>
                  (Returns True, fs',
                   emit (Print ''Inferior successfully resumed!'' []) (p\<lparr>cpu := c'\<rparr>))))"

subsection \<open>The inferior's message loop\<close>

text \<open>The for loop of case MSG_CRASH, lines 327 to 330.\<close>

function crash_loop ::
  "inferior_env \<Rightarrow> nat \<Rightarrow> fault_handler list \<Rightarrow> process \<Rightarrow> unit result \<times> fault_handler list \<times> process" where
  "crash_loop env i fs p =
     (if i < NUM_SEGV_TRIES then
        (case test_prep_and_segv env fs p of
           (Returns ok, fs', p') \<Rightarrow>
             (if \<not> ok then (Exits 21, fs', p') else crash_loop env (Suc i) fs' p')
         | (Exits c, fs', p') \<Rightarrow> (Exits c, fs', p')
         | (Blocks, fs', p') \<Rightarrow> (Blocks, fs', p')
         | (Crashes, fs', p') \<Rightarrow> (Crashes, fs', p'))
      else (Returns (), fs, p))"
  by pat_completeness auto
termination
  by (relation "measure (\<lambda>(env, i, fs, p). NUM_SEGV_TRIES - i)") auto

declare crash_loop.simps [simp del]

text \<open>The for loop of case MSG_START_EXTRA_THREADS, lines 334 to 339.\<close>

definition start_extra_threads :: "process \<Rightarrow> process" where
  "start_extra_threads p =
     fold (\<lambda>i. emit (Thread_create ''extra-thread'')) [0..<NUM_EXTRA_THREADS] p"

text \<open>
  The switch of msg_loop, lines 318 to 345, for one received message. It gives the new
  value of my_done_tests beside the state.
\<close>

definition msg_switch ::
  "inferior_env \<Rightarrow> message \<Rightarrow> fault_handler list \<Rightarrow> process
     \<Rightarrow> bool result \<times> fault_handler list \<times> process" where
  "msg_switch env msg fs p =
     (case msg of
        MSG_DONE \<Rightarrow> (Returns True, fs, p)
      | MSG_PING \<Rightarrow> (Returns False, fs, emit (Send MSG_PONG) p)
      | MSG_CRASH \<Rightarrow>
          (case crash_loop env 0 fs p of
             (Returns u, fs', p') \<Rightarrow> (Returns False, fs', emit (Send MSG_RECOVERED_FROM_CRASH) p')
           | (Exits c, fs', p') \<Rightarrow> (Exits c, fs', p')
           | (Blocks, fs', p') \<Rightarrow> (Blocks, fs', p')
           | (Crashes, fs', p') \<Rightarrow> (Crashes, fs', p'))
      | MSG_START_EXTRA_THREADS \<Rightarrow>
          (Returns False, fs, emit (Send MSG_EXTRA_THREADS_STARTED) (start_extra_threads p))
      | _ \<Rightarrow> (Returns False, fs, emit (Print ''unknown message received: %d'' [Arg_msg msg]) p))"

text \<open>
  msg_loop, lines 308 to 349. The messages still to arrive are a list; recv_msg fails
  when none is left (the channel is closed). The helper returns true at END_HELPER, since
  its only check is the ASSERT_TRUE that returns false at once.
\<close>

fun msg_loop ::
  "inferior_env \<Rightarrow> message list \<Rightarrow> fault_handler list \<Rightarrow> process \<Rightarrow> bool result \<times> process" where
  "msg_loop env [] fs p =
     (if done_tests p then (Returns True, p)
      else (Returns False, emit (Assert_failure ''Error while receiving msg'') p))"
| "msg_loop env (msg # inbox) fs p =
     (if done_tests p then (Returns True, p)
      else
        (case msg_switch env msg fs p of
           (Returns my_done_tests, fs', p') \<Rightarrow>
             (if my_done_tests then (Returns True, p') else msg_loop env inbox fs' p')
         | (Exits c, fs', p') \<Rightarrow> (Exits c, p')
         | (Blocks, fs', p') \<Rightarrow> (Blocks, p')
         | (Crashes, fs', p') \<Rightarrow> (Crashes, p')))"

text \<open>test_inferior, lines 351 to 362.\<close>

definition test_inferior ::
  "inferior_env \<Rightarrow> message list \<Rightarrow> fault_handler list \<Rightarrow> process \<Rightarrow> unit result \<times> process" where
  "test_inferior env inbox fs p =
     (let p = emit (Print ''test_inferior: got handle %d'' [Arg_u32 (pipe_handle env)]) p
      in case msg_loop env inbox fs p of
           (Returns ok, p') \<Rightarrow>
             (if \<not> ok then (Exits 20, p')
              else
                (let p' = emit (Store_done_tests True) (p'\<lparr>done_tests := True\<rparr>);
                     p' = emit (Print ''Inferior done'' []) p'
                 in (Exits 1234, p')))
         | (Exits c, p') \<Rightarrow> (Exits c, p')
         | (Blocks, p') \<Rightarrow> (Blocks, p')
         | (Crashes, p') \<Rightarrow> (Crashes, p'))"

subsection \<open>The watchdog\<close>

text \<open>
  watchdog_thread_func, lines 152 to 162. The thread sleeps one tick, then reads
  done_tests; flag i is the value it reads at its poll number i (from 0). It ends its own
  thread through mx_thread_exit, or the process through exit(5). The number of ticks slept
  is returned beside the end.
\<close>

datatype watchdog_end = Thread_exit | Process_exit int

function watchdog_loop :: "(nat \<Rightarrow> bool) \<Rightarrow> nat \<Rightarrow> watchdog_end \<times> nat" where
  "watchdog_loop flag i =
     (if i < WATCHDOG_DURATION_TICKS then
        (if flag i then (Thread_exit, Suc i) else watchdog_loop flag (Suc i))
      else (Process_exit 5, i))"
  by pat_completeness auto
termination
  by (relation "measure (\<lambda>(flag, i). WATCHDOG_DURATION_TICKS - i)") auto

declare watchdog_loop.simps [simp del]

definition watchdog_thread_func :: "(nat \<Rightarrow> bool) \<Rightarrow> watchdog_end \<times> nat" where
  "watchdog_thread_func flag = watchdog_loop flag 0"

subsection \<open>main\<close>

text \<open>
  What one run of the binary is given besides argv: for the inferior role its
  environment, the messages that arrive and the answers to its faults; for the driver role
  whether unittest_run_all_tests reports success, and how many polls of the watchdog come
  before the store of line 445 (None when unittest_run_all_tests never returns).
\<close>

record main_env =
  inf_env :: inferior_env
  main_inbox :: "message list"
  fault_answers :: "fault_handler list"
  tests_succeed :: bool
  polls_before_done :: "nat option"
  initial_cpu :: machine

definition test_inferior_child_name :: string where
  "test_inferior_child_name = ''inferior''"

definition test_segfault_child_name :: string where
  "test_segfault_child_name = ''segfault''"

text \<open>
  main, lines 426 to 448, from the initial state of line 43 (done_tests false).
  check_verbosity only sets how much unittest_printf shows and is left out; test_segfault
  stores through the pointer 42 and dies there. unittest_run_all_tests runs the two
  tests of the supervisor, which never name done_tests; its result is an input.
\<close>

definition main :: "string list \<Rightarrow> main_env \<Rightarrow> int result \<times> process" where
  "main argv env =
     (let p = \<lparr>cpu = initial_cpu env, done_tests = False, trace = []\<rparr>;
          argc = length argv
      in if argc \<ge> 2 \<and> argv ! 1 = test_inferior_child_name then
           (case test_inferior (inf_env env) (main_inbox env) (fault_answers env) p of
              (Returns u, p') \<Rightarrow> (Returns 0, p')
            | (Exits c, p') \<Rightarrow> (Exits c, p')
            | (Blocks, p') \<Rightarrow> (Blocks, p')
            | (Crashes, p') \<Rightarrow> (Crashes, p'))
         else if argc \<ge> 2 \<and> argv ! 1 = test_segfault_child_name then (Crashes, p)
         else
           (let p = emit (Thread_create ''watchdog-thread'') p;
                flag = (\<lambda>i. case polls_before_done env of None \<Rightarrow> False | Some n \<Rightarrow> n \<le> i)
            in case watchdog_thread_func flag of
                 (Process_exit c, ticks) \<Rightarrow> (Exits c, emit (Print ''WATCHDOG TIMER FIRED'' []) p)
               | (Thread_exit, ticks) \<Rightarrow>
                   (let success = tests_succeed env;
                        p = emit (Store_done_tests True) (p\<lparr>done_tests := True\<rparr>)
                    in (Returns (if success then 0 else -1), p))))"

text \<open>The values stored to done_tests along a trace, in order.\<close>

fun done_tests_stores :: "event list \<Rightarrow> bool list" where
  "done_tests_stores [] = []"
| "done_tests_stores (Store_done_tests b # evs) = b # done_tests_stores evs"
| "done_tests_stores (ev # evs) = done_tests_stores evs"

text \<open>The messages sent along a trace, in order.\<close>

fun sent_messages :: "event list \<Rightarrow> message list" where
  "sent_messages [] = []"
| "sent_messages (Send m # evs) = m # sent_messages evs"
| "sent_messages (ev # evs) = sent_messages evs"

subsection \<open>The thread list test\<close>

text \<open>
  The answers debugger_thread_list_test gets: whether setup_inferior and
  shutdown_inferior succeed, what recv_msg delivers (None when it fails), the status, the
  size, the header count and the records of the MX_INFO_PROCESS_THREADS call, and for
  every koid and handle what mx_object_get_child and the MX_INFO_HANDLE_BASIC call leave
  in (status, thread) and in (size, info.rec.type).
\<close>

record thread_list_answers =
  setup_ok :: bool
  reply :: "message option"
  info_status :: int
  info_size :: nat
  hdr_count :: nat
  rec_koid :: "nat \<Rightarrow> u64"
  get_child :: "u64 \<Rightarrow> int \<times> u32"
  handle_basic :: "u32 \<Rightarrow> nat \<times> u32"
  shutdown_ok :: bool

text \<open>The body of the loop of lines 222 to 233 for entry i.\<close>

definition verify_thread_entry ::
  "magenta_abi \<Rightarrow> thread_list_answers \<Rightarrow> nat \<Rightarrow> string list \<Rightarrow> string list" where
  "verify_thread_entry abi a i fails =
     (let koid = rec_koid a i;
          (status, thread) = get_child a koid;
          fails = EXPECT (status = 0) ''mx_debug_task_get_child failed'' fails;
          (size, type) = handle_basic a thread;
          fails = EXPECT (size = sizeof_info_handle_basic abi) ''mx_object_get_info failed'' fails
      in EXPECT (type = MX_OBJ_TYPE_THREAD abi) ''not a thread'' fails)"

text \<open>
  debugger_thread_list_test, lines 194 to 239: the value returned, the failures recorded
  and the messages sent. The assertion of line 214 has the empty message.
\<close>

definition debugger_thread_list_test ::
  "magenta_abi \<Rightarrow> thread_list_answers \<Rightarrow> bool \<times> string list \<times> message list" where
  "debugger_thread_list_test abi a =
     (if \<not> setup_ok a then (False, [], [])
      else
        (case reply a of
           None \<Rightarrow> (False, [], [MSG_START_EXTRA_THREADS])
         | Some msg \<Rightarrow>
             (let fails = EXPECT (msg = MSG_EXTRA_THREADS_STARTED)
                            ''unexpected response when starting extra threads'' []
              in if info_status a \<noteq> NO_ERROR abi
                 then (False, fails @ [[]], [MSG_START_EXTRA_THREADS])
                 else if \<not> (info_size a \<ge> sizeof_info_header abi
                                + (1 + NUM_EXTRA_THREADS) * sizeof_record_process_thread abi)
                 then (False, fails @ [''mx_object_get_info failed''], [MSG_START_EXTRA_THREADS])
                 else
                   (let num_threads = hdr_count a;
                        fails = fold (verify_thread_entry abi a) [0..<num_threads] fails
                    in if \<not> shutdown_ok a then (False, fails, [MSG_START_EXTRA_THREADS])
                       else (fails = [], fails, [MSG_START_EXTRA_THREADS])))))"

subsection \<open>The kernel's side of thread enumeration\<close>

text \<open>
  The threads of the inferior after a trace: the thread that runs main, and one thread
  for every Thread_create of the trace (extra_thread_func never returns, lines 298 to
  304). The kernel names the created threads; extra_koid k is the koid of the thread
  created by the k-th Thread_create.
\<close>

definition inferior_threads :: "u64 \<Rightarrow> (nat \<Rightarrow> u64) \<Rightarrow> event list \<Rightarrow> u64 list" where
  "inferior_threads main_koid extra_koid tr =
     main_koid # map extra_koid [0..<length (filter (\<lambda>ev. ev = Thread_create ''extra-thread'') tr)]"

text \<open>
  Modelled from the spec: the kernel calls mx_object_get_info and mx_object_get_child are
  missing. The spec lists them as enumerate-process-threads, get-child-thread-by-identifier
  and get-thread-basic-info: enumeration gives one record for every thread of the process
  (a header and count records, so size is the header plus count records), a thread's
  koid resolves to a handle to that thread, any other koid to an error, and the basic
  info of a thread handle is complete and has the object type of a thread. The handle of
  a thread is written thread_handle koid here.
\<close>

definition thread_handle :: "u64 \<Rightarrow> u32" where
  "thread_handle koid = ucast koid"

definition kernel_thread_answers ::
  "magenta_abi \<Rightarrow> u64 list \<Rightarrow> message option \<Rightarrow> thread_list_answers" where
  "kernel_thread_answers abi ts r =
     \<lparr>setup_ok = True,
      reply = r,
      info_status = NO_ERROR abi,
      info_size = sizeof_info_header abi + length ts * sizeof_record_process_thread abi,
      hdr_count = length ts,
      rec_koid = (\<lambda>i. ts ! i),
      get_child = (\<lambda>koid. if koid \<in> set ts then (0, thread_handle koid) else (-1, 0)),
      handle_basic = (\<lambda>h. if h \<in> set (map thread_handle ts)
                           then (sizeof_info_handle_basic abi, MX_OBJ_TYPE_THREAD abi)
                           else (0, 0)),
      shutdown_ok = True\<rparr>"

subsection \<open>Notions the properties are stated with\<close>

text \<open>
  A notification the loop body handles to its last line: the wait succeeds, the type is
  an architectural exception and not MX_EXCP_GONE, the thread resolves and the resume
  succeeds.
\<close>

definition resumes :: "magenta_abi \<Rightarrow> excp_event \<Rightarrow> bool" where
  "resumes abi e =
     (wait_status e = NO_ERROR abi \<and> excp_type e \<noteq> MX_EXCP_GONE abi
      \<and> MX_EXCP_IS_ARCH abi (excp_type e) \<and> child_status e = 0
      \<and> resume_status e = NO_ERROR abi)"

text \<open>The supervisor's state after the loop body has run for each notification of a list.\<close>

definition after_events :: "magenta_abi \<Rightarrow> excp_event list \<Rightarrow> supervisor \<Rightarrow> supervisor" where
  "after_events abi es s = fold (\<lambda>e s. snd (wait_inferior_body abi e s)) es s"

text \<open>The failures recorded, and the events of a process, between an earlier and a later state.\<close>

definition failures_since :: "supervisor \<Rightarrow> supervisor \<Rightarrow> string list" where
  "failures_since s s' = drop (length (failures s)) (failures s')"

definition events_since :: "process \<Rightarrow> process \<Rightarrow> event list" where
  "events_since p p' = drop (length (trace p)) (trace p')"

text \<open>
  The two ways a fault-and-verify cycle reports its end in the trace (lines 287 and 293).
\<close>

fun cycle_verified :: "event \<Rightarrow> bool" where
  "cycle_verified (Print fmt args) = (fmt = ''Inferior successfully resumed!'')"
| "cycle_verified ev = False"

fun cycle_failed :: "event \<Rightarrow> bool" where
  "cycle_failed (Print fmt args) =
     (fmt = ''test_prep_and_segv: bad data on resumption, test_data[%u] = 0x%x'')"
| "cycle_failed ev = False"

text \<open>
  The answer to a fault that the loop body of the worker gives, when the notification of
  the fault comes with the kernel's answers e: the thread, suspended in the state c, is
  resumed in the state the body leaves it in, and stays suspended when the body ends
  before or with a failed resume.
\<close>

definition resumed_by_supervisor :: "magenta_abi \<Rightarrow> excp_event \<Rightarrow> fault_handler" where
  "resumed_by_supervisor abi e c =
     (case wait_inferior_body abi (e\<lparr>suspended := c\<rparr>)
             \<lparr>debuggee = c, failures = [], syscalls = []\<rparr> of
        (Body_next, s') \<Rightarrow> Some (debuggee s')
      | (Body_break, s') \<Rightarrow> None
      | (Body_return b, s') \<Rightarrow> None)"

section \<open>Properties\<close>

lemma fold_EXPECT:
  "fold (\<lambda>i. EXPECT (P i) msg) xs fs = fs @ map (\<lambda>_. msg) (filter (\<lambda>i. \<not> P i) xs)"
  by (induction xs arbitrary: fs) (simp_all add: EXPECT_def)

lemma of_nat_u64_neq:
  assumes "i < k" "k < 2 ^ 64"
  shows "(of_nat i :: u64) \<noteq> of_nat k"
proof -
  have "take_bit 64 i = i" "take_bit 64 k = k"
    using assms by (simp_all add: take_bit_nat_eq_self)
  with assms(1) show ?thesis
    by (simp add: word_of_nat_eq_iff)
qed

lemma fold_upd_lookup:
  "i < k \<Longrightarrow> k \<le> 2 ^ 64 \<Longrightarrow>
   fold (\<lambda>i m'. m'((a::u64) + of_nat i := g i)) [0..<k] m (a + of_nat i) = g i"
proof (induction k)
  case 0 then show ?case by simp
next
  case (Suc k)
  show ?case
  proof (cases "i = k")
    case True then show ?thesis by simp
  next
    case False
    with Suc.prems have ik: "i < k" "k < 2 ^ 64" by simp_all
    then have "(of_nat i :: u64) \<noteq> of_nat k"
      by (rule of_nat_u64_neq)
    with Suc.IH ik show ?thesis by simp
  qed
qed

lemma seed_test_data_lookup:
  "i < TEST_MEMORY_SIZE \<Longrightarrow> seed_test_data a m (a + of_nat i) = of_nat i"
  unfolding seed_test_data_def
  by (rule fold_upd_lookup) (simp_all add: TEST_MEMORY_SIZE_def)

lemma length_local_test_data: "length (local_test_data g) = TEST_MEMORY_SIZE"
  by (simp add: local_test_data_def)

lemma fst_read_inferior_memory: "fst (read_inferior_memory m a buf len n) = min n len"
  by (simp add: read_inferior_memory_def Let_def)

lemma fst_write_inferior_memory: "fst (write_inferior_memory m a buf len n) = min n len"
  by (simp add: write_inferior_memory_def Let_def)

lemma syscalls_test_memory_ops:
  "syscalls (test_memory_ops e s) =
     syscalls s @
       [Read_memory (r9 (regs (debuggee s))) TEST_MEMORY_SIZE,
        Write_memory (r9 (regs (debuggee s)))
          (map (\<lambda>b. b + TEST_DATA_ADJUST)
             (snd (read_inferior_memory (mem (debuggee s)) (r9 (regs (debuggee s)))
                     (local_test_data (uninit_test_data e)) TEST_MEMORY_SIZE (nread e))))]"
  by (simp add: test_memory_ops_def Let_def split_def)

lemma failures_test_memory_ops:
  "failures (test_memory_ops e s) =
     failures s
     @ (if min (nread e) TEST_MEMORY_SIZE = TEST_MEMORY_SIZE then []
        else [''read_inferior_memory: short read''])
     @ map (\<lambda>_. ''test_memory_ops'')
         (filter (\<lambda>i. unat (snd (read_inferior_memory (mem (debuggee s)) (r9 (regs (debuggee s)))
                     (local_test_data (uninit_test_data e)) TEST_MEMORY_SIZE (nread e)) ! i) \<noteq> i)
            [0..<TEST_MEMORY_SIZE])
     @ (if min (nwritten e) TEST_MEMORY_SIZE = TEST_MEMORY_SIZE then []
        else [''write_inferior_memory: short write''])"
  by (simp add: test_memory_ops_def Let_def split_def fold_EXPECT EXPECT_def
        fst_read_inferior_memory fst_write_inferior_memory)

lemma mem_test_memory_ops:
  "mem (debuggee (test_memory_ops e s)) =
     snd (write_inferior_memory (mem (debuggee s)) (r9 (regs (debuggee s)))
            (map (\<lambda>b. b + TEST_DATA_ADJUST)
               (snd (read_inferior_memory (mem (debuggee s)) (r9 (regs (debuggee s)))
                       (local_test_data (uninit_test_data e)) TEST_MEMORY_SIZE (nread e))))
            TEST_MEMORY_SIZE (nwritten e))"
  by (simp add: test_memory_ops_def Let_def split_def)

text \<open>
  Claim C7. test_memory_ops asks the kernel for exactly one read and one write of
  TEST_MEMORY_SIZE bytes, whatever lengths come back (nothing is retried), and it compares
  each returned length with the requested one: the failure "short read" is recorded exactly
  when the read returns another length than TEST_MEMORY_SIZE, and the failure "short write"
  exactly when the write does.
\<close>

theorem test_memory_ops_checks_transfer_lengths:

  "(let a = r9 (regs (debuggee s));
        rd = read_inferior_memory (mem (debuggee s)) a
               (local_test_data (uninit_test_data e)) TEST_MEMORY_SIZE (nread e);
        data = map (\<lambda>b. b + TEST_DATA_ADJUST) (snd rd);
        wr = write_inferior_memory (mem (debuggee s)) a data TEST_MEMORY_SIZE (nwritten e);
        s' = test_memory_ops e s
    in syscalls s' = syscalls s @ [Read_memory a TEST_MEMORY_SIZE, Write_memory a data]
       \<and> failures s' = failures s @ failures_since s s'
       \<and> (''read_inferior_memory: short read'' \<in> set (failures_since s s'))
           = (fst rd \<noteq> TEST_MEMORY_SIZE)
       \<and> (''write_inferior_memory: short write'' \<in> set (failures_since s s'))
           = (fst wr \<noteq> TEST_MEMORY_SIZE))"
  unfolding Let_def
proof (intro conjI)
  show "syscalls (test_memory_ops e s) =
    syscalls s @
    [Read_memory (r9 (regs (debuggee s))) TEST_MEMORY_SIZE,
     Write_memory (r9 (regs (debuggee s)))
      (map (\<lambda>b. b + TEST_DATA_ADJUST)
        (snd (read_inferior_memory (mem (debuggee s)) (r9 (regs (debuggee s)))
               (local_test_data (uninit_test_data e)) TEST_MEMORY_SIZE (nread e))))]"
    by (rule syscalls_test_memory_ops)
  show "failures (test_memory_ops e s) = failures s @ failures_since s (test_memory_ops e s)"
    by (simp add: failures_since_def failures_test_memory_ops)
  show "(''read_inferior_memory: short read'' \<in> set (failures_since s (test_memory_ops e s))) =
    (fst (read_inferior_memory (mem (debuggee s)) (r9 (regs (debuggee s)))
           (local_test_data (uninit_test_data e)) TEST_MEMORY_SIZE (nread e)) \<noteq> TEST_MEMORY_SIZE)"
    by (auto simp: failures_since_def failures_test_memory_ops fst_read_inferior_memory)
  show "(''write_inferior_memory: short write'' \<in> set (failures_since s (test_memory_ops e s))) =
    (fst (write_inferior_memory (mem (debuggee s)) (r9 (regs (debuggee s)))
           (map (\<lambda>b. b + TEST_DATA_ADJUST)
             (snd (read_inferior_memory (mem (debuggee s)) (r9 (regs (debuggee s)))
                    (local_test_data (uninit_test_data e)) TEST_MEMORY_SIZE (nread e))))
           TEST_MEMORY_SIZE (nwritten e)) \<noteq> TEST_MEMORY_SIZE)"
    by (auto simp: failures_since_def failures_test_memory_ops fst_write_inferior_memory)
qed

text \<open>A read that moves 3 of the 8 bytes is reported.\<close>

theorem test_memory_ops_checks_transfer_lengths_witness:
  "''read_inferior_memory: short read''
     \<in> set (failures_since
              \<lparr>debuggee = \<lparr>regs = \<lparr>r8 = 0, r9 = 0x1000, rsp = 0x2000\<rparr>, mem = ucast\<rparr>,
               failures = [], syscalls = []\<rparr>
              (test_memory_ops
                 \<lparr>wait_status = 0, excp_type = 1, excp_tid = 7, child_status = 0,
       suspended = \<lparr>regs = \<lparr>r8 = 0, r9 = 0x1000, rsp = 0x2000\<rparr>, mem = ucast\<rparr>,
                  uninit_test_data = [], nread = 3, nwritten = 8, resume_status = 0\<rparr>
                 \<lparr>debuggee = \<lparr>regs = \<lparr>r8 = 0, r9 = 0x1000, rsp = 0x2000\<rparr>, mem = ucast\<rparr>,
                  failures = [], syscalls = []\<rparr>))"
  using test_memory_ops_checks_transfer_lengths
    [of "\<lparr>debuggee = \<lparr>regs = \<lparr>r8 = 0, r9 = 0x1000, rsp = 0x2000\<rparr>, mem = ucast\<rparr>,
          failures = [], syscalls = []\<rparr>"
        "\<lparr>wait_status = 0, excp_type = 1, excp_tid = 7, child_status = 0,
       suspended = \<lparr>regs = \<lparr>r8 = 0, r9 = 0x1000, rsp = 0x2000\<rparr>, mem = ucast\<rparr>,
          uninit_test_data = [], nread = 3, nwritten = 8, resume_status = 0\<rparr>"]
  by (simp add: Let_def fst_read_inferior_memory TEST_MEMORY_SIZE_def)

lemma length_failures_test_memory_ops:
  "length (failures s) \<le> length (failures (test_memory_ops e s))"
  by (simp add: test_memory_ops_def Let_def split_def fold_EXPECT EXPECT_def)

lemma failures_fix_inferior_segv: "failures (fix_inferior_segv s) = failures s"
  by (simp add: fix_inferior_segv_def Let_def)

lemma fst_body_next: "(fst (wait_inferior_body abi e s) = Body_next) = resumes abi e"
  by (auto simp: wait_inferior_body_def resumes_def Let_def)

lemma body_not_resumes:
  "\<not> resumes abi e \<Longrightarrow>
   (fst (wait_inferior_body abi e s) = Body_break
      \<and> wait_status e = NO_ERROR abi \<and> excp_type e = MX_EXCP_GONE abi
      \<and> failures (snd (wait_inferior_body abi e s)) = failures s)
   \<or> (fst (wait_inferior_body abi e s) = Body_return False
      \<and> length (failures s) < length (failures (snd (wait_inferior_body abi e s))))"
  using length_failures_test_memory_ops
          [of "s\<lparr>syscalls := syscalls s @ [Port_wait, Object_get_child (excp_tid e)],
                  debuggee := suspended e\<rparr>" e]
  by (auto simp: wait_inferior_body_def resumes_def Let_def failures_fix_inferior_segv)

lemma length_failures_body:
  "length (failures s) \<le> length (failures (snd (wait_inferior_body abi e s)))"
  using length_failures_test_memory_ops
          [of "s\<lparr>syscalls := syscalls s @ [Port_wait, Object_get_child (excp_tid e)],
                  debuggee := suspended e\<rparr>" e]
  by (auto simp: wait_inferior_body_def Let_def failures_fix_inferior_segv)

lemma length_failures_after_events:
  "length (failures s) \<le> length (failures (after_events abi es s))"
proof (induction es arbitrary: s)
  case Nil then show ?case by (simp add: after_events_def)
next
  case (Cons e es)
  have "length (failures s) \<le> length (failures (snd (wait_inferior_body abi e s)))"
    by (rule length_failures_body)
  also have "\<dots> \<le> length (failures (after_events abi es (snd (wait_inferior_body abi e s))))"
    by (rule Cons.IH)
  finally show ?case by (simp add: after_events_def)
qed

lemma loop_prefix:
  "list_all (resumes abi) pre \<Longrightarrow> i + length pre \<le> NUM_SEGV_TRIES \<Longrightarrow>
   wait_inferior_loop abi i (pre @ rest) s
     = wait_inferior_loop abi (i + length pre) rest (after_events abi pre s)"
proof (induction pre arbitrary: i s)
  case Nil then show ?case by (simp add: after_events_def)
next
  case (Cons e pre)
  from Cons.prems have r: "resumes abi e" and i: "i < NUM_SEGV_TRIES" by simp_all
  from r have "fst (wait_inferior_body abi e s) = Body_next" by (simp add: fst_body_next)
  then obtain s1 where b: "wait_inferior_body abi e s = (Body_next, s1)"
    by (cases "wait_inferior_body abi e s") simp
  have "wait_inferior_loop abi i ((e # pre) @ rest) s
          = wait_inferior_loop abi (Suc i) (pre @ rest) s1"
    using i by (simp add: b)
  also have "\<dots> = wait_inferior_loop abi (Suc i + length pre) rest (after_events abi pre s1)"
    using Cons.prems by (intro Cons.IH) simp_all
  finally show ?case by (simp add: after_events_def b)
qed

lemma loop_finished:
  "NUM_SEGV_TRIES \<le> i \<Longrightarrow> wait_inferior_loop abi i es s = (Loop_done, i, s)"
  by (cases es) simp_all

lemma worker_split:
  fixes abi es
  defines "pre \<equiv> takeWhile (resumes abi) (take NUM_SEGV_TRIES es)"
  shows "es = pre @ drop (length pre) es"
    and "list_all (resumes abi) pre"
    and "length pre \<le> NUM_SEGV_TRIES"
    and "length pre < NUM_SEGV_TRIES \<Longrightarrow> length pre < length es \<Longrightarrow> \<not> resumes abi (es ! length pre)"
proof -
  have "pre = take (length pre) (take NUM_SEGV_TRIES es)"
    unfolding pre_def by (rule takeWhile_eq_take)
  moreover have len: "length pre \<le> length (take NUM_SEGV_TRIES es)"
    unfolding pre_def by (rule length_takeWhile_le)
  ultimately have "pre = take (min (length pre) NUM_SEGV_TRIES) es"
    by simp
  moreover from len have "min (length pre) NUM_SEGV_TRIES = length pre"
    by simp
  ultimately have "pre = take (length pre) es"
    by simp
  then show "es = pre @ drop (length pre) es"
    by (metis append_take_drop_id)
  show "list_all (resumes abi) pre"
    unfolding pre_def list_all_iff by (auto dest: set_takeWhileD)
  from len show "length pre \<le> NUM_SEGV_TRIES" by simp
  assume a: "length pre < NUM_SEGV_TRIES" "length pre < length es"
  then have "length (takeWhile (resumes abi) (take NUM_SEGV_TRIES es)) < length (take NUM_SEGV_TRIES es)"
    unfolding pre_def by simp
  then have "\<not> resumes abi (take NUM_SEGV_TRIES es ! length (takeWhile (resumes abi) (take NUM_SEGV_TRIES es)))"
    by (rule nth_length_takeWhile)
  with a show "\<not> resumes abi (es ! length pre)"
    unfolding pre_def by simp
qed

text \<open>
  Claim C5. In any iteration the loop reaches (the notifications before it were handled
  up to the resume), a notification whose wait succeeded and whose type is neither
  MX_EXCP_GONE nor an architectural exception makes the worker return false with the
  failure of line 115, and an architectural one whose thread does not resolve makes it
  return false with the failure of line 121. In both cases nothing follows the failing
  call: no further system call is made, the counter stays, and the notifications still to
  come are not read.
\<close>

theorem malformed_exception_stream_is_fatal:
  assumes "list_all (resumes abi) pre" and "length pre < NUM_SEGV_TRIES"
      and "wait_status e = NO_ERROR abi" and "excp_type e \<noteq> MX_EXCP_GONE abi"
  shows "(\<not> MX_EXCP_IS_ARCH abi (excp_type e) \<longrightarrow>
            wait_inferior_thread_worker abi (pre @ e # post) s =
              (Returns False, length pre,
               (after_events abi pre s)
                 \<lparr>failures := failures (after_events abi pre s)
                                @ [''wait-inf: unexpected exception type''],
                  syscalls := syscalls (after_events abi pre s) @ [Port_wait]\<rparr>))
       \<and> (MX_EXCP_IS_ARCH abi (excp_type e) \<and> child_status e \<noteq> 0 \<longrightarrow>
            wait_inferior_thread_worker abi (pre @ e # post) s =
              (Returns False, length pre,
               (after_events abi pre s)
                 \<lparr>failures := failures (after_events abi pre s)
                                @ [''mx_debug_task_get_child failed''],
                  syscalls := syscalls (after_events abi pre s)
                                @ [Port_wait, Object_get_child (excp_tid e)]\<rparr>))"
proof -
  have "wait_inferior_loop abi 0 (pre @ e # post) s
          = wait_inferior_loop abi (length pre) (e # post) (after_events abi pre s)"
    using loop_prefix [of abi pre 0 "e # post" s] assms(1,2) by simp
  then show ?thesis
    using assms(2-4)
    by (simp add: wait_inferior_thread_worker_def wait_inferior_body_def Let_def)
qed

text \<open>A first notification of the unknown type 100 ends the worker at once.\<close>

theorem malformed_exception_stream_is_fatal_witness:
  "wait_inferior_thread_worker
     \<lparr>MX_EXCP_GONE = 101, MX_EXCP_IS_ARCH = (\<ge>) 99, NO_ERROR = 0, MX_OBJ_TYPE_THREAD = 2,
      sizeof_info_header = 16, sizeof_record_process_thread = 8, sizeof_info_handle_basic = 32\<rparr>
     [\<lparr>wait_status = 0, excp_type = 100, excp_tid = 7, child_status = 0,
       suspended = \<lparr>regs = \<lparr>r8 = 0, r9 = 0x1000, rsp = 0x2000\<rparr>, mem = ucast\<rparr>,
       uninit_test_data = [], nread = 8, nwritten = 8, resume_status = 0\<rparr>]
     \<lparr>debuggee = \<lparr>regs = \<lparr>r8 = 0, r9 = 0x1000, rsp = 0x2000\<rparr>, mem = ucast\<rparr>,
      failures = [], syscalls = []\<rparr>
   = (Returns False, 0,
      \<lparr>debuggee = \<lparr>regs = \<lparr>r8 = 0, r9 = 0x1000, rsp = 0x2000\<rparr>, mem = ucast\<rparr>,
       failures = [''wait-inf: unexpected exception type''], syscalls = [Port_wait]\<rparr>)"
  using malformed_exception_stream_is_fatal
    [of "\<lparr>MX_EXCP_GONE = 101, MX_EXCP_IS_ARCH = (\<ge>) 99, NO_ERROR = 0, MX_OBJ_TYPE_THREAD = 2,
      sizeof_info_header = 16, sizeof_record_process_thread = 8, sizeof_info_handle_basic = 32\<rparr>"
        "[]"
        "\<lparr>wait_status = 0, excp_type = 100, excp_tid = 7, child_status = 0,
       suspended = \<lparr>regs = \<lparr>r8 = 0, r9 = 0x1000, rsp = 0x2000\<rparr>, mem = ucast\<rparr>,
       uninit_test_data = [], nread = 8, nwritten = 8, resume_status = 0\<rparr>"
        "[]"
        "\<lparr>debuggee = \<lparr>regs = \<lparr>r8 = 0, r9 = 0x1000, rsp = 0x2000\<rparr>, mem = ucast\<rparr>,
      failures = [], syscalls = []\<rparr>"]
  by (simp add: NUM_SEGV_TRIES_def after_events_def)

lemma worker_run:
  "(case wait_inferior_thread_worker abi es s of
      (r, i, s') \<Rightarrow>
        i = length (takeWhile (resumes abi) (take NUM_SEGV_TRIES es))
        \<and> i \<le> NUM_SEGV_TRIES
        \<and> (r = Returns True) = (i = NUM_SEGV_TRIES)
        \<and> (r = Blocks) = (i < NUM_SEGV_TRIES \<and> length es = i)
        \<and> (i < NUM_SEGV_TRIES \<and> i < length es \<longrightarrow>
             r = Returns False \<and> failures_since s s' \<noteq> [])
        \<and> (i < NUM_SEGV_TRIES \<and> i < length es \<and> wait_status (es ! i) = NO_ERROR abi
             \<and> excp_type (es ! i) = MX_EXCP_GONE abi \<longrightarrow>
             failures s' = failures (after_events abi (take i es) s) @ [''segv tests terminated prematurely'']))"
proof -
  define pre where "pre = takeWhile (resumes abi) (take NUM_SEGV_TRIES es)"
  define rest where "rest = drop (length pre) es"
  define s1 where "s1 = after_events abi pre s"
  have es: "es = pre @ rest" and all: "list_all (resumes abi) pre"
    and le: "length pre \<le> NUM_SEGV_TRIES"
    unfolding pre_def rest_def by (rule worker_split)+
  have stop: "length pre < NUM_SEGV_TRIES \<Longrightarrow> length pre < length es \<Longrightarrow> \<not> resumes abi (es ! length pre)"
    unfolding pre_def by (rule worker_split)
  have run: "wait_inferior_loop abi 0 es s = wait_inferior_loop abi (length pre) rest s1"
    using loop_prefix [of abi pre 0 rest s] all le es s1_def by simp
  have grow: "length (failures s) \<le> length (failures s1)"
    unfolding s1_def by (rule length_failures_after_events)
  have tk: "take (length pre) es = pre"
    using es by (metis append_eq_conv_conj)
  have i_eq: "length (takeWhile (resumes abi) (take NUM_SEGV_TRIES es)) = length pre"
    by (simp add: pre_def)
  have len_es: "length es = length pre + length rest"
    using es by (metis length_append)
  consider (full) "length pre = NUM_SEGV_TRIES"
    | (blocked) "length pre < NUM_SEGV_TRIES" "rest = []"
    | (stopped) e rest' where "length pre < NUM_SEGV_TRIES" "rest = e # rest'"
    using le by (cases rest) (auto simp: le_less)
  then show ?thesis
  proof cases
    case full
    then show ?thesis
      unfolding i_eq using run len_es by (simp add: wait_inferior_thread_worker_def loop_finished)
  next
    case blocked
    then show ?thesis
      unfolding i_eq using run len_es by (simp add: wait_inferior_thread_worker_def)
  next
    case stopped
    then have lt: "length pre < length es"
      using len_es by simp
    have e: "es ! length pre = e"
      using es stopped(2) by (metis nth_append_length)
    from stop [OF stopped(1) lt] e have nr: "\<not> resumes abi e" by simp
    obtain b s2 where body: "wait_inferior_body abi e s1 = (b, s2)"
      by (cases "wait_inferior_body abi e s1")
    from body_not_resumes [OF nr, of s1] body
    consider (brk) "b = Body_break" "wait_status e = NO_ERROR abi" "excp_type e = MX_EXCP_GONE abi" "failures s2 = failures s1"
      | (ret) "b = Body_return False" "length (failures s1) < length (failures s2)"
      by auto
    then show ?thesis
    proof cases
      case brk
      then show ?thesis
        unfolding i_eq using run stopped body lt e grow tk
        by (simp add: wait_inferior_thread_worker_def failures_since_def s1_def)
    next
      case ret
      have "excp_type e \<noteq> MX_EXCP_GONE abi \<or> wait_status e \<noteq> NO_ERROR abi"
        using ret(1) body by (auto simp: wait_inferior_body_def Let_def split: if_splits)
      with ret show ?thesis
        unfolding i_eq using run stopped body lt e grow
        by (auto simp: wait_inferior_thread_worker_def failures_since_def)
    qed
  qed
qed

text \<open>
  Claim C1, as amended. The loop body ends at its last line exactly for the
  notifications that satisfy resumes. The loop of wait_inferior_thread_worker runs at most
  NUM_SEGV_TRIES iterations: the final count i is the number of leading notifications,
  among the first NUM_SEGV_TRIES, that the body handles up to the resume. The worker
  returns true exactly when i = NUM_SEGV_TRIES. It blocks exactly when the notifications
  run out before that. In every other run with i below NUM_SEGV_TRIES it returns false
  with a failure recorded, and when the loop was left by the break on MX_EXCP_GONE that
  failure is the one of line 139, "segv tests terminated prematurely".
\<close>

theorem worker_iteration_count:
  "(\<forall>e s0. (fst (wait_inferior_body abi e s0) = Body_next) = resumes abi e)
   \<and> (case wait_inferior_thread_worker abi es s of
      (r, i, s') \<Rightarrow>
        i = length (takeWhile (resumes abi) (take NUM_SEGV_TRIES es))
        \<and> i \<le> NUM_SEGV_TRIES
        \<and> (r = Returns True) = (i = NUM_SEGV_TRIES)
        \<and> (r = Blocks) = (i < NUM_SEGV_TRIES \<and> length es = i)
        \<and> (i < NUM_SEGV_TRIES \<and> i < length es \<longrightarrow>
             r = Returns False \<and> failures_since s s' \<noteq> [])
        \<and> (i < NUM_SEGV_TRIES \<and> i < length es \<and> wait_status (es ! i) = NO_ERROR abi
             \<and> excp_type (es ! i) = MX_EXCP_GONE abi \<longrightarrow>
             failures s' = failures (after_events abi (take i es) s)
                             @ [''segv tests terminated prematurely'']))"
  using fst_body_next [of abi] worker_run [of abi es s] by blast

text \<open>The same run returns false with the failure of line 139.\<close>

theorem worker_iteration_count_witness:
  "wait_inferior_thread_worker
     \<lparr>MX_EXCP_GONE = 101, MX_EXCP_IS_ARCH = (\<ge>) 99, NO_ERROR = 0, MX_OBJ_TYPE_THREAD = 2,
      sizeof_info_header = 16, sizeof_record_process_thread = 8, sizeof_info_handle_basic = 32\<rparr>
     [\<lparr>wait_status = 0, excp_type = 101, excp_tid = 7, child_status = 0,
       suspended = \<lparr>regs = \<lparr>r8 = 0, r9 = 0x1000, rsp = 0x2000\<rparr>, mem = ucast\<rparr>,
       uninit_test_data = [], nread = 8, nwritten = 8, resume_status = 0\<rparr>]
     \<lparr>debuggee = \<lparr>regs = \<lparr>r8 = 0, r9 = 0x1000, rsp = 0x2000\<rparr>, mem = ucast\<rparr>,
      failures = [], syscalls = []\<rparr>
   = (Returns False, 0,
      \<lparr>debuggee = \<lparr>regs = \<lparr>r8 = 0, r9 = 0x1000, rsp = 0x2000\<rparr>, mem = ucast\<rparr>,
       failures = [''segv tests terminated prematurely''], syscalls = [Port_wait]\<rparr>)"
proof -
  let ?abi = "\<lparr>MX_EXCP_GONE = 101, MX_EXCP_IS_ARCH = (\<ge>) 99, NO_ERROR = 0, MX_OBJ_TYPE_THREAD = 2,
      sizeof_info_header = 16, sizeof_record_process_thread = 8, sizeof_info_handle_basic = 32\<rparr>"
  let ?e = "\<lparr>wait_status = 0, excp_type = 101, excp_tid = 7, child_status = 0,
       suspended = \<lparr>regs = \<lparr>r8 = 0, r9 = 0x1000, rsp = 0x2000\<rparr>, mem = ucast\<rparr>,
       uninit_test_data = [], nread = 8, nwritten = 8, resume_status = 0\<rparr>"
  let ?s = "\<lparr>debuggee = \<lparr>regs = \<lparr>r8 = 0, r9 = 0x1000, rsp = 0x2000\<rparr>, mem = ucast\<rparr>,
      failures = [], syscalls = []\<rparr>"
  obtain r i s' where w: "wait_inferior_thread_worker ?abi [?e] ?s = (r, i, s')"
    by (cases "wait_inferior_thread_worker ?abi [?e] ?s") auto
  have s': "debuggee s' = debuggee ?s" "syscalls s' = [Port_wait]"
    using w by (auto simp: wait_inferior_thread_worker_def wait_inferior_body_def NUM_SEGV_TRIES_def)
  from worker_iteration_count [where abi = ?abi and es = "[?e]" and s = ?s]
  have "case wait_inferior_thread_worker ?abi [?e] ?s of
      (r, i, s') \<Rightarrow>
        i = length (takeWhile (resumes ?abi) (take NUM_SEGV_TRIES [?e]))
        \<and> i \<le> NUM_SEGV_TRIES
        \<and> (r = Returns True) = (i = NUM_SEGV_TRIES)
        \<and> (r = Blocks) = (i < NUM_SEGV_TRIES \<and> length [?e] = i)
        \<and> (i < NUM_SEGV_TRIES \<and> i < length [?e] \<longrightarrow>
             r = Returns False \<and> failures_since ?s s' \<noteq> [])
        \<and> (i < NUM_SEGV_TRIES \<and> i < length [?e] \<and> wait_status ([?e] ! i) = NO_ERROR ?abi
             \<and> excp_type ([?e] ! i) = MX_EXCP_GONE ?abi \<longrightarrow>
             failures s' = failures (after_events ?abi (take i [?e]) ?s)
                             @ [''segv tests terminated prematurely''])"
    by (rule conjunct2)
  then have "i = 0" "r = Returns False" "failures s' = [''segv tests terminated prematurely'']"
    by (simp_all add: w resumes_def NUM_SEGV_TRIES_def after_events_def)
  with s' w show ?thesis by simp
qed

text \<open>
  Claim C1 as stated has every run execute exactly NUM_SEGV_TRIES iterations. A run whose
  first notification is MX_EXCP_GONE leaves the loop with the count 0.
\<close>

theorem exactly_four_iterations_counterexample:
  "fst (snd (wait_inferior_thread_worker
     \<lparr>MX_EXCP_GONE = 101, MX_EXCP_IS_ARCH = (\<ge>) 99, NO_ERROR = 0, MX_OBJ_TYPE_THREAD = 2,
      sizeof_info_header = 16, sizeof_record_process_thread = 8, sizeof_info_handle_basic = 32\<rparr>
     [\<lparr>wait_status = 0, excp_type = 101, excp_tid = 7, child_status = 0,
       suspended = \<lparr>regs = \<lparr>r8 = 0, r9 = 0x1000, rsp = 0x2000\<rparr>, mem = ucast\<rparr>,
       uninit_test_data = [], nread = 8, nwritten = 8, resume_status = 0\<rparr>]
     \<lparr>debuggee = \<lparr>regs = \<lparr>r8 = 0, r9 = 0x1000, rsp = 0x2000\<rparr>, mem = ucast\<rparr>,
      failures = [], syscalls = []\<rparr>)) = 0
   \<and> (0 :: nat) \<noteq> NUM_SEGV_TRIES"
  by (simp add: wait_inferior_thread_worker_def wait_inferior_body_def NUM_SEGV_TRIES_def)

lemma read_back_seed:
  assumes "TEST_MEMORY_SIZE \<le> n" "length buf = TEST_MEMORY_SIZE"
  shows "read_inferior_memory (seed_test_data a m) a buf TEST_MEMORY_SIZE n
           = (TEST_MEMORY_SIZE, map of_nat [0..<TEST_MEMORY_SIZE])"
  using assms by (simp add: read_inferior_memory_def Let_def seed_test_data_lookup min_def)

lemma write_lookup:
  assumes "TEST_MEMORY_SIZE \<le> n" "i < TEST_MEMORY_SIZE"
  shows "snd (write_inferior_memory m a buf TEST_MEMORY_SIZE n) (a + of_nat i) = buf ! i"
proof -
  have "min n TEST_MEMORY_SIZE = TEST_MEMORY_SIZE"
    using assms(1) by simp
  then show ?thesis
    using assms(2) fold_upd_lookup [of i TEST_MEMORY_SIZE a "\<lambda>i. buf ! i" m]
    by (simp add: write_inferior_memory_def Let_def TEST_MEMORY_SIZE_def)
qed

lemma first_bad_index_None:
  "(first_bad_index a m = None)
     = (\<forall>i<TEST_MEMORY_SIZE. unat (m (a + of_nat i)) = i + unat TEST_DATA_ADJUST)"
  by (auto simp: first_bad_index_def find_None_iff)

lemma unat_adjusted: "i < TEST_MEMORY_SIZE \<Longrightarrow> unat ((of_nat i :: u8) + TEST_DATA_ADJUST) = i + unat TEST_DATA_ADJUST"
  apply (simp add: TEST_MEMORY_SIZE_def TEST_DATA_ADJUST_def unat_word_ariths unat_of_nat)
  done

lemma byte_adjusted_iff:
  assumes "i < TEST_MEMORY_SIZE"
  shows "(unat (b :: u8) = i + unat TEST_DATA_ADJUST) = (b = of_nat i + TEST_DATA_ADJUST)"
proof
  assume "unat b = i + unat TEST_DATA_ADJUST"
  then have "of_nat (unat b) = (of_nat (i + unat TEST_DATA_ADJUST) :: u8)" by simp
  then show "b = of_nat i + TEST_DATA_ADJUST" by simp
next
  assume "b = of_nat i + TEST_DATA_ADJUST"
  with assms show "unat b = i + unat TEST_DATA_ADJUST" by (simp add: unat_adjusted)
qed

lemma first_bad_index_None_iff:
  "(first_bad_index a m = None)
     = (\<forall>i<TEST_MEMORY_SIZE. m (a + of_nat i) = of_nat i + TEST_DATA_ADJUST)"
  by (simp add: first_bad_index_None byte_adjusted_iff)

lemma regs_segv_state: "r9 (regs (segv_state env c)) = test_data_at env"
  and mem_segv_state: "mem (segv_state env c) = seed_test_data (test_data_at env) (mem c)"
  by (simp_all add: segv_state_def Let_def)

lemma segv_here_faults_once:
  assumes "\<not> readable env (r8 (regs c))" and "f c = Some c'" and "readable env (r8 (regs c'))"
  shows "segv_here env (f # fs) c = (True, c', fs)"
  using assms by (cases fs) simp_all

lemma r8_segv_state: "r8 (regs (segv_state env c)) = 0"
  and rsp_segv_state: "rsp (regs (segv_state env c)) = rsp (regs c)"
  by (simp_all add: segv_state_def Let_def)

lemma regs_test_memory_ops: "regs (debuggee (test_memory_ops e s)) = regs (debuggee s)"
  by (simp add: test_memory_ops_def Let_def split_def)

lemma cpu_emit_early: "cpu (emit ev p) = cpu p"
  by (simp add: emit_def)

lemma test_prep_and_segv_after:
  assumes "segv_here env fs (segv_state env (cpu p)) = (ok, c', fs')"
  shows "test_prep_and_segv env fs p =
     (if ok then
        (case first_bad_index (test_data_at env) (mem c') of
           Some i \<Rightarrow>
             (Returns False, fs',
              emit (Print ''test_prep_and_segv: bad data on resumption, test_data[%u] = 0x%x''
                      [Arg_nat i, Arg_u8 (mem c' (test_data_at env + of_nat i))])
                (emit (Print ''About to segv, pc 0x%lx'' [Arg_u64 (segv_pc env)]) p\<lparr>cpu := c'\<rparr>))
         | None \<Rightarrow>
             (Returns True, fs',
              emit (Print ''Inferior successfully resumed!'' [])
                (emit (Print ''About to segv, pc 0x%lx'' [Arg_u64 (segv_pc env)]) p\<lparr>cpu := c'\<rparr>)))
      else (Blocks, fs',
            emit (Print ''About to segv, pc 0x%lx'' [Arg_u64 (segv_pc env)]) p\<lparr>cpu := c'\<rparr>))"
  unfolding test_prep_and_segv_def Let_def cpu_emit_early assms
  by (cases ok) simp_all

lemma test_prep_and_segv_verdict:
  assumes "\<not> readable env 0" and "f (segv_state env (cpu p)) = Some c'"
      and "readable env (r8 (regs c'))"
  shows "fst (test_prep_and_segv env (f # fs) p)
           = Returns (\<forall>i<TEST_MEMORY_SIZE.
                        mem c' (test_data_at env + of_nat i) = of_nat i + TEST_DATA_ADJUST)"
    and "fst (snd (test_prep_and_segv env (f # fs) p)) = fs"
    and "cpu (snd (snd (test_prep_and_segv env (f # fs) p))) = c'"
proof -
  have sh: "segv_here env (f # fs) (segv_state env (cpu p)) = (True, c', fs)"
    using assms by (intro segv_here_faults_once) (simp_all add: r8_segv_state)
  show "fst (test_prep_and_segv env (f # fs) p)
           = Returns (\<forall>i<TEST_MEMORY_SIZE.
                        mem c' (test_data_at env + of_nat i) = of_nat i + TEST_DATA_ADJUST)"
  proof (cases "first_bad_index (test_data_at env) (mem c')")
    case None
    moreover from None
    have "\<forall>i<TEST_MEMORY_SIZE. mem c' (test_data_at env + of_nat i) = of_nat i + TEST_DATA_ADJUST"
      by (simp add: first_bad_index_None_iff)
    ultimately show ?thesis
      by (simp add: test_prep_and_segv_after [OF sh])
  next
    case (Some i)
    moreover from Some
    have "\<not> (\<forall>i<TEST_MEMORY_SIZE. mem c' (test_data_at env + of_nat i) = of_nat i + TEST_DATA_ADJUST)"
      by (simp add: first_bad_index_None_iff [symmetric])
    ultimately show ?thesis
      by (simp add: test_prep_and_segv_after [OF sh])
  qed
  show "fst (snd (test_prep_and_segv env (f # fs) p)) = fs"
    by (simp add: test_prep_and_segv_after [OF sh] split: option.split)
  show "cpu (snd (snd (test_prep_and_segv env (f # fs) p))) = c'"
    by (simp add: test_prep_and_segv_after [OF sh] emit_def split: option.split)
qed

lemma test_prep_and_segv_refaults:
  assumes "\<not> readable env 0" and "f (segv_state env (cpu p)) = Some c'"
      and "\<not> readable env (r8 (regs c'))"
  shows "fst (test_prep_and_segv env [f] p) = Blocks"
proof -
  have sh: "segv_here env [f] (segv_state env (cpu p)) = (False, c', [])"
    using assms by (simp add: r8_segv_state)
  show ?thesis
    by (simp add: test_prep_and_segv_after [OF sh])
qed

lemma supervisor_adjusts:
  assumes "TEST_MEMORY_SIZE \<le> nread e" and "TEST_MEMORY_SIZE \<le> nwritten e"
      and "r9 (regs (debuggee s)) = a" and "mem (debuggee s) = seed_test_data a m"
  shows "failures (test_memory_ops e s) = failures s"
    and "i < TEST_MEMORY_SIZE \<Longrightarrow>
           mem (debuggee (test_memory_ops e s)) (a + of_nat i) = of_nat i + TEST_DATA_ADJUST"
proof -
  have rd: "read_inferior_memory (mem (debuggee s)) (r9 (regs (debuggee s)))
              (local_test_data (uninit_test_data e)) TEST_MEMORY_SIZE (nread e)
            = (TEST_MEMORY_SIZE, map of_nat [0..<TEST_MEMORY_SIZE])"
    using assms by (simp add: read_back_seed length_local_test_data)
  have small: "\<And>k. k < TEST_MEMORY_SIZE \<Longrightarrow> unat (of_nat k :: u8) = k"
    by (simp add: TEST_MEMORY_SIZE_def unat_of_nat)
  have "filter (\<lambda>i. unat (map of_nat [0..<TEST_MEMORY_SIZE] ! i :: u8) \<noteq> i) [0..<TEST_MEMORY_SIZE] = []"
    by (simp add: filter_empty_conv small)
  then show "failures (test_memory_ops e s) = failures s"
    using assms(1,2) by (simp add: failures_test_memory_ops rd)
  assume i: "i < TEST_MEMORY_SIZE"
  then show "mem (debuggee (test_memory_ops e s)) (a + of_nat i) = of_nat i + TEST_DATA_ADJUST"
    using assms(2) by (simp add: mem_test_memory_ops rd write_lookup assms(3) [symmetric])
qed

lemma test_memory_ops_suspended:
  "test_memory_ops (e\<lparr>suspended := c\<rparr>) s = test_memory_ops e s"
  by (simp add: test_memory_ops_def)

lemma debuggee_fix_inferior_segv_syscalls:
  "debuggee (fix_inferior_segv s\<lparr>syscalls := xs\<rparr>) = debuggee (fix_inferior_segv s)"
  by (simp add: fix_inferior_segv_def Let_def)

lemma resumed_by_supervisor_Some:
  assumes "resumes abi e"
  shows "\<exists>s. resumed_by_supervisor abi e c = Some (debuggee (fix_inferior_segv (test_memory_ops e s)))
             \<and> debuggee s = c"
proof -
  have "resumes abi (e\<lparr>suspended := c\<rparr>)"
    using assms by (simp add: resumes_def)
  then show ?thesis
    unfolding resumed_by_supervisor_def
    by (simp add: wait_inferior_body_def resumes_def Let_def test_memory_ops_suspended
          debuggee_fix_inferior_segv_syscalls)
       (rule exI [of _ "\<lparr>debuggee = c, failures = [],
                           syscalls = [Port_wait, Object_get_child (excp_tid e)]\<rparr>"], simp)
qed

lemma cycle_with_supervisor:
  assumes "TEST_MEMORY_SIZE \<le> nread e" and "TEST_MEMORY_SIZE \<le> nwritten e"
      and "resumes abi e"
      and "\<not> readable env 0" and "readable env (rsp (regs (cpu p)))"
  shows "fst (test_prep_and_segv env (resumed_by_supervisor abi e # fs) p) = Returns True"
    and "fst (snd (test_prep_and_segv env (resumed_by_supervisor abi e # fs) p)) = fs"
    and "rsp (regs (cpu (snd (snd (test_prep_and_segv env (resumed_by_supervisor abi e # fs) p)))))
           = rsp (regs (cpu p))"
    and "\<exists>c'. resumed_by_supervisor abi e (segv_state env (cpu p)) = Some c'
              \<and> r8 (regs c') = rsp (regs (cpu p))"
proof -
  obtain s1 where
    r: "resumed_by_supervisor abi e (segv_state env (cpu p))
          = Some (debuggee (fix_inferior_segv (test_memory_ops e s1)))"
    and d: "debuggee s1 = segv_state env (cpu p)"
    using resumed_by_supervisor_Some [OF assms(3), of "segv_state env (cpu p)"] by blast
  let ?c' = "debuggee (fix_inferior_segv (test_memory_ops e s1))"
  have s1: "r9 (regs (debuggee s1)) = test_data_at env"
    "mem (debuggee s1) = seed_test_data (test_data_at env) (mem (cpu p))"
    by (simp_all add: d regs_segv_state mem_segv_state)
  have fixed: "r8 (regs ?c') = rsp (regs (cpu p))" "rsp (regs ?c') = rsp (regs (cpu p))"
    by (simp_all add: fix_inferior_segv_def Let_def regs_test_memory_ops d rsp_segv_state)
  then have usable: "readable env (r8 (regs ?c'))"
    using assms(5) by simp
  have "fst (test_prep_and_segv env (resumed_by_supervisor abi e # fs) p)
          = Returns (\<forall>i<TEST_MEMORY_SIZE.
               mem ?c' (test_data_at env + of_nat i) = of_nat i + TEST_DATA_ADJUST)"
    using assms(4) r usable by (rule test_prep_and_segv_verdict)
  then show "fst (test_prep_and_segv env (resumed_by_supervisor abi e # fs) p) = Returns True"
    using supervisor_adjusts(2) [OF assms(1,2) s1]
    by (simp add: fix_inferior_segv_def Let_def)
  show "fst (snd (test_prep_and_segv env (resumed_by_supervisor abi e # fs) p)) = fs"
    using assms(4) r usable by (rule test_prep_and_segv_verdict)
  have "cpu (snd (snd (test_prep_and_segv env (resumed_by_supervisor abi e # fs) p))) = ?c'"
    using assms(4) r usable by (rule test_prep_and_segv_verdict)
  then show "rsp (regs (cpu (snd (snd (test_prep_and_segv env (resumed_by_supervisor abi e # fs) p)))))
           = rsp (regs (cpu p))"
    using fixed by simp
  show "\<exists>c'. resumed_by_supervisor abi e (segv_state env (cpu p)) = Some c'
              \<and> r8 (regs c') = rsp (regs (cpu p))"
    using r fixed by simp
qed

text \<open>
  Claim C2. When the null address is not readable and the stack pointer of the thread
  is, the kernel moves all TEST_MEMORY_SIZE bytes of the read and of the write, and the
  worker's loop body handles the notification of the fault up to the resume: the buffer
  of the faulting thread holds 0, 1, ..., 7; the supervisor's read returns exactly that
  sequence; test_memory_ops records no failure; afterwards the byte at index i of the
  buffer is i + TEST_DATA_ADJUST; the loop body resumes the thread with r8 set to its
  stack pointer; and test_prep_and_segv, resumed by the loop body, executes the load
  again, this time without a fault, and returns true. Resumed in any state whose r8 is
  readable, test_prep_and_segv returns whether every byte at index i is
  i + TEST_DATA_ADJUST; resumed in a state whose r8 is not readable, it faults again and
  never reaches the verification.
\<close>

theorem test_data_round_trip:
  assumes "TEST_MEMORY_SIZE \<le> nread e" and "TEST_MEMORY_SIZE \<le> nwritten e"
      and "resumes abi e"
      and "\<not> readable env 0" and "readable env (rsp (regs (cpu p)))"
  shows "(let c = segv_state env c0;
              a = test_data_at env;
              s' = test_memory_ops e (s\<lparr>debuggee := c\<rparr>)
          in map (\<lambda>i. mem c (a + of_nat i)) [0..<TEST_MEMORY_SIZE] = map of_nat [0..<TEST_MEMORY_SIZE]
             \<and> read_inferior_memory (mem c) (r9 (regs c)) (local_test_data (uninit_test_data e))
                  TEST_MEMORY_SIZE (nread e)
                = (TEST_MEMORY_SIZE, map of_nat [0..<TEST_MEMORY_SIZE])
             \<and> failures s' = failures s
             \<and> (\<forall>i<TEST_MEMORY_SIZE. mem (debuggee s') (a + of_nat i) = of_nat i + TEST_DATA_ADJUST)
             \<and> (\<exists>c'. resumed_by_supervisor abi e (segv_state env (cpu p)) = Some c'
                      \<and> r8 (regs c') = rsp (regs (cpu p)))
             \<and> fst (test_prep_and_segv env (resumed_by_supervisor abi e # fs) p) = Returns True
             \<and> (\<forall>f c'. f (segv_state env (cpu p)) = Some c' \<and> readable env (r8 (regs c')) \<longrightarrow>
                  fst (test_prep_and_segv env (f # fs) p)
                    = Returns (\<forall>i<TEST_MEMORY_SIZE. mem c' (a + of_nat i) = of_nat i + TEST_DATA_ADJUST))
             \<and> (\<forall>f c'. f (segv_state env (cpu p)) = Some c' \<and> \<not> readable env (r8 (regs c')) \<longrightarrow>
                  fst (test_prep_and_segv env [f] p) = Blocks))"
proof -
  define a where "a = test_data_at env"
  define c where "c = segv_state env c0"
  have c: "r9 (regs c) = a" "mem c = seed_test_data a (mem c0)"
    by (simp_all add: c_def a_def regs_segv_state mem_segv_state)
  have 1: "map (\<lambda>i. mem c (a + of_nat i)) [0..<TEST_MEMORY_SIZE] = map of_nat [0..<TEST_MEMORY_SIZE]"
    by (simp add: c seed_test_data_lookup)
  have 2: "read_inferior_memory (mem c) (r9 (regs c)) (local_test_data (uninit_test_data e))
             TEST_MEMORY_SIZE (nread e) = (TEST_MEMORY_SIZE, map of_nat [0..<TEST_MEMORY_SIZE])"
    using assms(1) by (simp add: c read_back_seed length_local_test_data)
  have 3: "failures (test_memory_ops e (s\<lparr>debuggee := c\<rparr>)) = failures s"
    using supervisor_adjusts(1) [OF assms(1,2), of "s\<lparr>debuggee := c\<rparr>" a "mem c0"] c by simp
  have 4: "\<forall>i<TEST_MEMORY_SIZE.
             mem (debuggee (test_memory_ops e (s\<lparr>debuggee := c\<rparr>))) (a + of_nat i)
               = of_nat i + TEST_DATA_ADJUST"
    using supervisor_adjusts(2) [OF assms(1,2), of "s\<lparr>debuggee := c\<rparr>" a "mem c0"] c by simp
  have 5: "\<exists>c'. resumed_by_supervisor abi e (segv_state env (cpu p)) = Some c'
              \<and> r8 (regs c') = rsp (regs (cpu p))"
    using assms by (rule cycle_with_supervisor)
  have 6: "fst (test_prep_and_segv env (resumed_by_supervisor abi e # fs) p) = Returns True"
    using assms by (rule cycle_with_supervisor)
  have 7: "fst (test_prep_and_segv env (f # fs) p)
                  = Returns (\<forall>i<TEST_MEMORY_SIZE. mem c' (a + of_nat i) = of_nat i + TEST_DATA_ADJUST)"
    if "f (segv_state env (cpu p)) = Some c'" "readable env (r8 (regs c'))" for f c'
    using assms(4) that unfolding a_def by (rule test_prep_and_segv_verdict)
  have 8: "fst (test_prep_and_segv env [f] p) = Blocks"
    if "f (segv_state env (cpu p)) = Some c'" "\<not> readable env (r8 (regs c'))" for f c'
    using assms(4) that by (rule test_prep_and_segv_refaults)
  show ?thesis
    unfolding Let_def a_def [symmetric] c_def [symmetric]
    using 1 2 3 4 5 6 7 8 by blast
qed

text \<open>
  One cycle with the worker's loop body answering the fault, and one with the thread
  resumed as it was suspended, from a concrete state.
\<close>

theorem test_data_round_trip_witness:
  "TEST_MEMORY_SIZE \<le> 8
   \<and> \<not> readable \<lparr>pipe_handle = 3, segv_pc = 0x400000, test_data_at = 0x1000,
                   readable = (\<le>) 0x1000\<rparr> 0
   \<and> readable \<lparr>pipe_handle = 3, segv_pc = 0x400000, test_data_at = 0x1000,
                 readable = (\<le>) 0x1000\<rparr> 0x2000
   \<and> fst (test_prep_and_segv
            \<lparr>pipe_handle = 3, segv_pc = 0x400000, test_data_at = 0x1000,
             readable = (\<le>) 0x1000\<rparr>
            [resumed_by_supervisor
               \<lparr>MX_EXCP_GONE = 101, MX_EXCP_IS_ARCH = (\<ge>) 99, NO_ERROR = 0,
                MX_OBJ_TYPE_THREAD = 2, sizeof_info_header = 16,
                sizeof_record_process_thread = 8, sizeof_info_handle_basic = 32\<rparr>
               \<lparr>wait_status = 0, excp_type = 1, excp_tid = 7, child_status = 0,
                suspended = \<lparr>regs = \<lparr>r8 = 0, r9 = 0x1000, rsp = 0x2000\<rparr>, mem = ucast\<rparr>,
                uninit_test_data = [], nread = 8, nwritten = 8, resume_status = 0\<rparr>]
            \<lparr>cpu = \<lparr>regs = \<lparr>r8 = 0, r9 = 0, rsp = 0x2000\<rparr>, mem = ucast\<rparr>,
             done_tests = False, trace = []\<rparr>)
       = Returns True
   \<and> fst (test_prep_and_segv
            \<lparr>pipe_handle = 3, segv_pc = 0x400000, test_data_at = 0x1000,
             readable = (\<le>) 0x1000\<rparr>
            [Some]
            \<lparr>cpu = \<lparr>regs = \<lparr>r8 = 0, r9 = 0, rsp = 0x2000\<rparr>, mem = ucast\<rparr>,
             done_tests = False, trace = []\<rparr>)
       = Blocks"
proof -
  let ?env = "\<lparr>pipe_handle = 3, segv_pc = 0x400000, test_data_at = 0x1000,
             readable = (\<le>) 0x1000\<rparr>"
  let ?abi = "\<lparr>MX_EXCP_GONE = 101, MX_EXCP_IS_ARCH = (\<ge>) 99, NO_ERROR = 0,
                MX_OBJ_TYPE_THREAD = 2, sizeof_info_header = 16,
                sizeof_record_process_thread = 8, sizeof_info_handle_basic = 32\<rparr>"
  let ?e = "\<lparr>wait_status = 0, excp_type = 1, excp_tid = 7, child_status = 0,
                suspended = \<lparr>regs = \<lparr>r8 = 0, r9 = 0x1000, rsp = 0x2000\<rparr>, mem = ucast\<rparr>,
                uninit_test_data = [], nread = 8, nwritten = 8, resume_status = 0\<rparr>"
  let ?c = "\<lparr>regs = \<lparr>r8 = 0, r9 = 0, rsp = 0x2000\<rparr>, mem = ucast\<rparr>"
  let ?p = "\<lparr>cpu = ?c, done_tests = False, trace = []\<rparr>"
  let ?s = "\<lparr>debuggee = ?c, failures = [], syscalls = []\<rparr>"
  have h: "TEST_MEMORY_SIZE \<le> nread ?e" "TEST_MEMORY_SIZE \<le> nwritten ?e" "resumes ?abi ?e"
    "\<not> readable ?env 0" "readable ?env (rsp (regs (cpu ?p)))"
    by (simp_all add: TEST_MEMORY_SIZE_def resumes_def)
  have again: "\<not> readable ?env (r8 (regs (segv_state ?env (cpu ?p))))"
    by (simp add: r8_segv_state)
  from test_data_round_trip [OF h, where ?c0.0 = ?c and s = ?s and fs = "[]"] again
  have "fst (test_prep_and_segv ?env [resumed_by_supervisor ?abi ?e] ?p) = Returns True"
    and "fst (test_prep_and_segv ?env [Some] ?p) = Blocks"
    unfolding Let_def by blast+
  with h show ?thesis
    by (simp add: TEST_MEMORY_SIZE_def)
qed

lemma trace_emit: "trace (emit ev p) = trace p @ [ev]"
  and done_tests_emit: "done_tests (emit ev p) = done_tests p"
  and cpu_emit: "cpu (emit ev p) = cpu p"
  by (simp_all add: emit_def)

lemma done_tests_stores_append:
  "done_tests_stores (xs @ ys) = done_tests_stores xs @ done_tests_stores ys"
  by (induction xs rule: done_tests_stores.induct) simp_all

lemma sent_messages_append:
  "sent_messages (xs @ ys) = sent_messages xs @ sent_messages ys"
  by (induction xs rule: sent_messages.induct) simp_all

lemma test_prep_and_segv_result:
  "\<exists>r fs' p' evs.
     test_prep_and_segv env fs p = (r, fs', p') \<and> done_tests p' = done_tests p
     \<and> trace p' = trace p @ Print ''About to segv, pc 0x%lx'' [Arg_u64 (segv_pc env)] # evs
     \<and> ((r = Returns True \<and> evs = [Print ''Inferior successfully resumed!'' []])
        \<or> (r = Returns False
            \<and> (\<exists>i b. evs = [Print ''test_prep_and_segv: bad data on resumption, test_data[%u] = 0x%x''
                                [Arg_nat i, Arg_u8 b]]))
        \<or> (r = Blocks \<and> evs = []))"
  by (simp add: test_prep_and_segv_def Let_def emit_def split: prod.split bool.split option.split)

lemma crash_loop_result:
  "\<exists>r fs' p' evs.
     crash_loop env i fs p = (r, fs', p') \<and> done_tests p' = done_tests p
     \<and> trace p' = trace p @ evs
     \<and> sent_messages evs = [] \<and> done_tests_stores evs = []
     \<and> filter (\<lambda>ev. ev = Thread_create ''extra-thread'') evs = []
     \<and> ((r = Returns () \<and> length (filter cycle_verified evs) = NUM_SEGV_TRIES - i
           \<and> filter cycle_failed evs = [])
        \<or> (r = Exits 21 \<and> evs \<noteq> [] \<and> cycle_failed (last evs)
            \<and> length (filter cycle_verified evs) < NUM_SEGV_TRIES - i)
        \<or> (r = Blocks \<and> filter cycle_failed evs = []
            \<and> length (filter cycle_verified evs) < NUM_SEGV_TRIES - i))"
proof (induction env i fs p rule: crash_loop.induct)
  case (1 env i fs p)
  show ?case
  proof (cases "i < NUM_SEGV_TRIES")
    case False
    then have "crash_loop env i fs p = (Returns (), fs, p)"
      by (subst crash_loop.simps) simp
    with False show ?thesis by simp
  next
    case True
    obtain r fs1 p1 evs1 where
      t: "test_prep_and_segv env fs p = (r, fs1, p1)" and d: "done_tests p1 = done_tests p"
      and tr: "trace p1 = trace p @ Print ''About to segv, pc 0x%lx'' [Arg_u64 (segv_pc env)] # evs1"
      and r: "(r = Returns True \<and> evs1 = [Print ''Inferior successfully resumed!'' []])
        \<or> (r = Returns False
            \<and> (\<exists>i b. evs1 = [Print ''test_prep_and_segv: bad data on resumption, test_data[%u] = 0x%x''
                                [Arg_nat i, Arg_u8 b]]))
        \<or> (r = Blocks \<and> evs1 = [])"
      using test_prep_and_segv_result [of env fs p] by blast
    from r consider (ok) "r = Returns True" "evs1 = [Print ''Inferior successfully resumed!'' []]"
      | (bad) k b where "r = Returns False"
          "evs1 = [Print ''test_prep_and_segv: bad data on resumption, test_data[%u] = 0x%x''
                     [Arg_nat k, Arg_u8 b]]"
      | (blocked) "r = Blocks" "evs1 = []"
      by blast
    then show ?thesis
    proof cases
      case ok
      have step: "crash_loop env i fs p = crash_loop env (Suc i) fs1 p1"
        using True t ok by (subst crash_loop.simps) simp
      from "1.IH" [OF True t [symmetric] ok(1) refl] 
      obtain r2 fs2 p2 evs2 where
        c: "crash_loop env (Suc i) fs1 p1 = (r2, fs2, p2)" and d2: "done_tests p2 = done_tests p1"
        and tr2: "trace p2 = trace p1 @ evs2"
        and quiet: "sent_messages evs2 = []" "done_tests_stores evs2 = []"
          "filter (\<lambda>ev. ev = Thread_create ''extra-thread'') evs2 = []"
        and r2: "(r2 = Returns () \<and> length (filter cycle_verified evs2) = NUM_SEGV_TRIES - Suc i
           \<and> filter cycle_failed evs2 = [])
        \<or> (r2 = Exits 21 \<and> evs2 \<noteq> [] \<and> cycle_failed (last evs2)
            \<and> length (filter cycle_verified evs2) < NUM_SEGV_TRIES - Suc i)
        \<or> (r2 = Blocks \<and> filter cycle_failed evs2 = []
            \<and> length (filter cycle_verified evs2) < NUM_SEGV_TRIES - Suc i)"
        by auto
      let ?evs = "Print ''About to segv, pc 0x%lx'' [Arg_u64 (segv_pc env)] # evs1 @ evs2"
      have "crash_loop env i fs p = (r2, fs2, p2)" using step c by simp
      moreover have "done_tests p2 = done_tests p" using d d2 by simp
      moreover have "trace p2 = trace p @ ?evs" using tr tr2 by simp
      moreover have "sent_messages ?evs = []" "done_tests_stores ?evs = []"
        "filter (\<lambda>ev. ev = Thread_create ''extra-thread'') ?evs = []"
        using quiet ok(2) by simp_all
      moreover have "(r2 = Returns () \<and> length (filter cycle_verified ?evs) = NUM_SEGV_TRIES - i
           \<and> filter cycle_failed ?evs = [])
        \<or> (r2 = Exits 21 \<and> ?evs \<noteq> [] \<and> cycle_failed (last ?evs)
            \<and> length (filter cycle_verified ?evs) < NUM_SEGV_TRIES - i)
        \<or> (r2 = Blocks \<and> filter cycle_failed ?evs = []
            \<and> length (filter cycle_verified ?evs) < NUM_SEGV_TRIES - i)"
        using r2 True ok(2) by auto
      ultimately show ?thesis by blast
    next
      case bad
      have "crash_loop env i fs p = (Exits 21, fs1, p1)"
        using True t bad by (subst crash_loop.simps) simp
      with d tr bad True show ?thesis by simp
    next
      case blocked
      have "crash_loop env i fs p = (Blocks, fs1, p1)"
        using True t blocked by (subst crash_loop.simps) simp
      with d tr blocked True show ?thesis by simp
    qed
  qed
qed

lemma crash_loop_all_verified:
  "\<forall>f\<in>set fs. \<forall>fs' p'. I p' \<longrightarrow>
      fst (test_prep_and_segv env (f # fs') p') = Returns True
      \<and> fst (snd (test_prep_and_segv env (f # fs') p')) = fs'
      \<and> I (snd (snd (test_prep_and_segv env (f # fs') p'))) \<Longrightarrow>
   I p \<Longrightarrow> NUM_SEGV_TRIES - i \<le> length fs \<Longrightarrow>
   fst (crash_loop env i fs p) = Returns ()"
proof (induction env i fs p rule: crash_loop.induct)
  case (1 env i fs p)
  show ?case
  proof (cases "i < NUM_SEGV_TRIES")
    case False
    then show ?thesis by (subst crash_loop.simps) simp
  next
    case True
    with "1.prems"(3) obtain f fs1 where fs: "fs = f # fs1"
      by (cases fs) auto
    obtain r fs' p1 where t: "test_prep_and_segv env fs p = (r, fs', p1)"
      by (cases "test_prep_and_segv env fs p") auto
    from "1.prems"(1,2) fs
    have "fst (test_prep_and_segv env (f # fs1) p) = Returns True
      \<and> fst (snd (test_prep_and_segv env (f # fs1) p)) = fs1
      \<and> I (snd (snd (test_prep_and_segv env (f # fs1) p)))"
      by simp
    with t fs have r: "r = Returns True" and fs': "fs' = fs1" and inv: "I p1"
      by simp_all
    have step: "crash_loop env i fs p = crash_loop env (Suc i) fs1 p1"
      using True t r fs' by (subst crash_loop.simps) simp
    have "fst (crash_loop env (Suc i) fs' p1) = Returns ()"
    proof (rule "1.IH" [OF True t [symmetric] r refl])
      show "\<not> \<not> True" by simp
      show "\<forall>f\<in>set fs'. \<forall>fs' p'. I p' \<longrightarrow>
              fst (test_prep_and_segv env (f # fs') p') = Returns True
              \<and> fst (snd (test_prep_and_segv env (f # fs') p')) = fs'
              \<and> I (snd (snd (test_prep_and_segv env (f # fs') p')))"
        using "1.prems"(1) fs fs' by simp
      show "I p1" by (rule inv)
      show "NUM_SEGV_TRIES - Suc i \<le> length fs'"
        using "1.prems"(3) fs fs' by simp
    qed
    with step fs' show ?thesis by simp
  qed
qed

lemma trace_start_extra_threads:
  "trace (start_extra_threads p) = trace p @ replicate NUM_EXTRA_THREADS (Thread_create ''extra-thread'')"
  and done_tests_start_extra_threads: "done_tests (start_extra_threads p) = done_tests p"
  and cpu_start_extra_threads: "cpu (start_extra_threads p) = cpu p"
  unfolding start_extra_threads_def NUM_EXTRA_THREADS_def
  by (simp_all add: upt_rec emit_def numeral_eq_Suc)

lemma msg_switch_result:
  "\<exists>r fs' p' evs.
     msg_switch env msg fs p = (r, fs', p') \<and> done_tests p' = done_tests p
     \<and> trace p' = trace p @ evs \<and> done_tests_stores evs = []
     \<and> (r = Returns True \<or> r = Returns False \<or> r = Exits 21 \<or> r = Blocks)"
proof -
  obtain r fs' p' evs where
    c: "crash_loop env 0 fs p = (r, fs', p')" "done_tests p' = done_tests p"
       "trace p' = trace p @ evs" "done_tests_stores evs = []"
       "r = Returns () \<or> r = Exits 21 \<or> r = Blocks"
    using crash_loop_result [of env 0 fs p] by blast
  show ?thesis
  proof (cases msg)
    case MSG_CRASH
    from c(5) show ?thesis
      using c(1-4) MSG_CRASH
      by (auto simp: msg_switch_def emit_def done_tests_stores_append)
  qed (simp_all add: msg_switch_def emit_def trace_start_extra_threads
         done_tests_start_extra_threads done_tests_stores_append NUM_EXTRA_THREADS_def
         numeral_eq_Suc)
qed

lemma msg_loop_quiet:
  "\<exists>r p' evs. msg_loop env inbox fs p = (r, p') \<and> done_tests p' = done_tests p
     \<and> trace p' = trace p @ evs \<and> done_tests_stores evs = []
     \<and> (r = Returns True \<or> r = Returns False \<or> r = Exits 21 \<or> r = Blocks)"
proof (induction inbox arbitrary: fs p)
  case Nil
  show ?case by (simp add: emit_def)
next
  case (Cons msg inbox)
  show ?case
  proof (cases "done_tests p")
    case True then show ?thesis by simp
  next
    case False
    obtain r fs1 p1 evs1 where
      sw: "msg_switch env msg fs p = (r, fs1, p1)" "done_tests p1 = done_tests p"
          "trace p1 = trace p @ evs1" "done_tests_stores evs1 = []"
          "r = Returns True \<or> r = Returns False \<or> r = Exits 21 \<or> r = Blocks"
      using msg_switch_result [of env msg fs p] by blast
    from sw(5) show ?thesis
    proof (elim disjE)
      assume r: "r = Returns False"
      obtain r2 p2 evs2 where
        l: "msg_loop env inbox fs1 p1 = (r2, p2)" "done_tests p2 = done_tests p1"
           "trace p2 = trace p1 @ evs2" "done_tests_stores evs2 = []"
           "r2 = Returns True \<or> r2 = Returns False \<or> r2 = Exits 21 \<or> r2 = Blocks"
        using Cons.IH [of fs1 p1] by blast
      have "msg_loop env (msg # inbox) fs p = (r2, p2)"
        using False sw(1) r l(1) by simp
      moreover have "trace p2 = trace p @ (evs1 @ evs2)" using sw(3) l(3) by simp
      moreover have "done_tests_stores (evs1 @ evs2) = []"
        using sw(4) l(4) by (simp add: done_tests_stores_append)
      ultimately show ?thesis using sw(2) l(2,5) by blast
    qed (use False sw in auto)
  qed
qed

text \<open>
  Claim C8. A message other than MSG_DONE, MSG_PING, MSG_CRASH and
  MSG_START_EXTRA_THREADS only adds the line "unknown message received" to the trace: the
  switch sends nothing, leaves the machine, done_tests and the fault answers as they are,
  does not end the loop, and the loop goes on with the next message.
\<close>

theorem unknown_message_is_ignored:
  assumes "\<not> done_tests p"
      and "msg \<notin> {MSG_DONE, MSG_PING, MSG_CRASH, MSG_START_EXTRA_THREADS}"
  shows "msg_loop env (msg # inbox) fs p
           = msg_loop env inbox fs (emit (Print ''unknown message received: %d'' [Arg_msg msg]) p)
         \<and> msg_switch env msg fs p
           = (Returns False, fs, p\<lparr>trace := trace p @ [Print ''unknown message received: %d'' [Arg_msg msg]]\<rparr>)"
  using assms by (cases msg) (simp_all add: msg_switch_def emit_def)

text \<open>An unknown value 99 followed by MSG_DONE.\<close>

theorem unknown_message_is_ignored_witness:
  "msg_loop \<lparr>pipe_handle = 3, segv_pc = 0x400000, test_data_at = 0x1000,
       readable = (\<le>) 0x1000\<rparr>
     [MSG_OTHER 99, MSG_DONE] []
     \<lparr>cpu = \<lparr>regs = \<lparr>r8 = 0, r9 = 0, rsp = 0x2000\<rparr>, mem = ucast\<rparr>,
      done_tests = False, trace = []\<rparr>
   = (Returns True,
      \<lparr>cpu = \<lparr>regs = \<lparr>r8 = 0, r9 = 0, rsp = 0x2000\<rparr>, mem = ucast\<rparr>,
       done_tests = False,
       trace = [Print ''unknown message received: %d'' [Arg_msg (MSG_OTHER 99)]]\<rparr>)"
  using unknown_message_is_ignored
    [of "\<lparr>cpu = \<lparr>regs = \<lparr>r8 = 0, r9 = 0, rsp = 0x2000\<rparr>, mem = ucast\<rparr>,
          done_tests = False, trace = []\<rparr>"
        "MSG_OTHER 99"
        "\<lparr>pipe_handle = 3, segv_pc = 0x400000, test_data_at = 0x1000,
       readable = (\<le>) 0x1000\<rparr>"
        "[MSG_DONE]" "[]"]
  by (simp add: emit_def msg_switch_def)

text \<open>
  Claim C10. On MSG_DONE the message loop returns true at once with the state unchanged
  (nothing is sent, no later message is read). Whenever the loop returns true,
  test_inferior stores true to done_tests and ends the process with exit code 1234, which
  is none of 0, 5, 20, 21 and -1.
\<close>

theorem done_message_exit_code:
  assumes "\<not> done_tests p"
  shows "msg_loop env (MSG_DONE # inbox) fs p = (Returns True, p)
       \<and> (\<forall>p'. msg_loop env inbox fs (emit (Print ''test_inferior: got handle %d'' [Arg_u32 (pipe_handle env)]) p)
                  = (Returns True, p') \<longrightarrow>
              test_inferior env inbox fs p
                = (Exits 1234,
                   p'\<lparr>done_tests := True,
                      trace := trace p' @ [Store_done_tests True, Print ''Inferior done'' []]\<rparr>))
       \<and> test_inferior env (MSG_DONE # inbox) fs p
           = (Exits 1234,
              p\<lparr>done_tests := True,
                trace := trace p @ [Print ''test_inferior: got handle %d'' [Arg_u32 (pipe_handle env)],
                                    Store_done_tests True, Print ''Inferior done'' []]\<rparr>)
       \<and> (1234 :: int) \<notin> {0, 5, 20, 21, - 1}"
  using assms by (simp add: msg_switch_def test_inferior_def emit_def Let_def)

text \<open>The inferior given MSG_DONE alone.\<close>

theorem done_message_exit_code_witness:
  "test_inferior \<lparr>pipe_handle = 3, segv_pc = 0x400000, test_data_at = 0x1000,
       readable = (\<le>) 0x1000\<rparr>
     [MSG_DONE] []
     \<lparr>cpu = \<lparr>regs = \<lparr>r8 = 0, r9 = 0, rsp = 0x2000\<rparr>, mem = ucast\<rparr>,
      done_tests = False, trace = []\<rparr>
   = (Exits 1234,
      \<lparr>cpu = \<lparr>regs = \<lparr>r8 = 0, r9 = 0, rsp = 0x2000\<rparr>, mem = ucast\<rparr>,
       done_tests = True,
       trace = [Print ''test_inferior: got handle %d'' [Arg_u32 3],
                Store_done_tests True, Print ''Inferior done'' []]\<rparr>)"
  using done_message_exit_code
    [of "\<lparr>cpu = \<lparr>regs = \<lparr>r8 = 0, r9 = 0, rsp = 0x2000\<rparr>, mem = ucast\<rparr>,
          done_tests = False, trace = []\<rparr>"
        "\<lparr>pipe_handle = 3, segv_pc = 0x400000, test_data_at = 0x1000,
       readable = (\<le>) 0x1000\<rparr>"
        "[]" "[]"]
  by simp

lemma sent_messages_empty: "sent_messages evs = [] \<Longrightarrow> Send m \<notin> set evs"
  by (induction evs rule: sent_messages.induct) auto

text \<open>
  Claim C4. For MSG_CRASH the switch ends in one of three ways. It sends
  MSG_RECOVERED_FROM_CRASH, as the last event and the only message, exactly when it goes
  on with the loop, and then NUM_SEGV_TRIES cycles were verified and none failed. A cycle
  failed exactly when the process exits with code 21: the failed verification is then the
  last event, fewer than NUM_SEGV_TRIES cycles were verified and no message was sent. Or
  the thread is never resumed from a fault, and no message is sent either.
\<close>

theorem crash_reply_only_after_all_cycles:
  assumes "\<not> done_tests p"
  shows "(case msg_switch env MSG_CRASH fs p of
            (r, fs', p') \<Rightarrow>
              (let evs = events_since p p' in
                 trace p' = trace p @ evs
               \<and> (r = Returns False \<or> r = Exits 21 \<or> r = Blocks)
               \<and> (Send MSG_RECOVERED_FROM_CRASH \<in> set evs) = (r = Returns False)
               \<and> (r = Returns False \<longrightarrow>
                    sent_messages evs = [MSG_RECOVERED_FROM_CRASH]
                    \<and> last evs = Send MSG_RECOVERED_FROM_CRASH
                    \<and> length (filter cycle_verified evs) = NUM_SEGV_TRIES
                    \<and> filter cycle_failed evs = []
                    \<and> msg_loop env (MSG_CRASH # msgs) fs p = msg_loop env msgs fs' p')
               \<and> (filter cycle_failed evs \<noteq> []) = (r = Exits 21)
               \<and> (r = Exits 21 \<longrightarrow>
                    cycle_failed (last evs) \<and> sent_messages evs = []
                    \<and> length (filter cycle_verified evs) < NUM_SEGV_TRIES
                    \<and> msg_loop env (MSG_CRASH # msgs) fs p = (Exits 21, p'))
               \<and> (r = Blocks \<longrightarrow>
                    sent_messages evs = [] \<and> msg_loop env (MSG_CRASH # msgs) fs p = (Blocks, p'))))"
proof -
  obtain r fs' p' evs where
    c: "crash_loop env 0 fs p = (r, fs', p')" and tr: "trace p' = trace p @ evs"
    and quiet: "sent_messages evs = []"
    and r: "(r = Returns () \<and> length (filter cycle_verified evs) = NUM_SEGV_TRIES - 0
           \<and> filter cycle_failed evs = [])
        \<or> (r = Exits 21 \<and> evs \<noteq> [] \<and> cycle_failed (last evs)
            \<and> length (filter cycle_verified evs) < NUM_SEGV_TRIES - 0)
        \<or> (r = Blocks \<and> filter cycle_failed evs = []
            \<and> length (filter cycle_verified evs) < NUM_SEGV_TRIES - 0)"
    using crash_loop_result [of env 0 fs p] by blast
  have nosend: "Send MSG_RECOVERED_FROM_CRASH \<notin> set evs"
    using quiet by (rule sent_messages_empty)
  from r consider (ok) "r = Returns ()" "length (filter cycle_verified evs) = NUM_SEGV_TRIES"
        "filter cycle_failed evs = []"
    | (bad) "r = Exits 21" "evs \<noteq> []" "cycle_failed (last evs)"
        "length (filter cycle_verified evs) < NUM_SEGV_TRIES"
    | (blocked) "r = Blocks" "filter cycle_failed evs = []"
    by auto
  then show ?thesis
  proof cases
    case ok
    have sw: "msg_switch env MSG_CRASH fs p
                = (Returns False, fs', p'\<lparr>trace := trace p @ evs @ [Send MSG_RECOVERED_FROM_CRASH]\<rparr>)"
      using c ok(1) tr by (simp add: msg_switch_def emit_def)
    show ?thesis
      using assms ok(2,3) quiet
      by (simp add: sw events_since_def sent_messages_append)
  next
    case bad
    have sw: "msg_switch env MSG_CRASH fs p = (Exits 21, fs', p')"
      using c bad(1) by (simp add: msg_switch_def)
    have "filter cycle_failed evs \<noteq> []"
      using bad(2,3) by (simp add: filter_empty_conv) (metis last_in_set)
    then show ?thesis
      using assms bad quiet nosend tr
      by (simp add: sw events_since_def)
  next
    case blocked
    have sw: "msg_switch env MSG_CRASH fs p = (Blocks, fs', p')"
      using c blocked(1) by (simp add: msg_switch_def)
    show ?thesis
      using assms blocked quiet nosend tr
      by (simp add: sw events_since_def)
  qed
qed

text \<open>
  A thread resumed with r8 set to its stack pointer and its memory untouched fails the
  first verification: the process exits with 21, having sent nothing, and MSG_PING is
  never read. With four faults answered by the worker's loop body the reply is sent.
\<close>

theorem crash_reply_only_after_all_cycles_witness:
  "fst (msg_loop \<lparr>pipe_handle = 3, segv_pc = 0x400000, test_data_at = 0x1000,
                  readable = (\<le>) 0x1000\<rparr>
          [MSG_CRASH, MSG_PING]
          [\<lambda>c. Some (c\<lparr>regs := (regs c)\<lparr>r8 := rsp (regs c)\<rparr>\<rparr>)]
          \<lparr>cpu = \<lparr>regs = \<lparr>r8 = 0, r9 = 0, rsp = 0x2000\<rparr>, mem = ucast\<rparr>,
           done_tests = False, trace = []\<rparr>) = Exits 21
   \<and> sent_messages (trace (snd (msg_loop
          \<lparr>pipe_handle = 3, segv_pc = 0x400000, test_data_at = 0x1000,
           readable = (\<le>) 0x1000\<rparr>
          [MSG_CRASH, MSG_PING]
          [\<lambda>c. Some (c\<lparr>regs := (regs c)\<lparr>r8 := rsp (regs c)\<rparr>\<rparr>)]
          \<lparr>cpu = \<lparr>regs = \<lparr>r8 = 0, r9 = 0, rsp = 0x2000\<rparr>, mem = ucast\<rparr>,
           done_tests = False, trace = []\<rparr>))) = []
   \<and> sent_messages (trace (snd (snd (msg_switch
          \<lparr>pipe_handle = 3, segv_pc = 0x400000, test_data_at = 0x1000,
           readable = (\<le>) 0x1000\<rparr>
          MSG_CRASH
          (replicate 4 (resumed_by_supervisor
             \<lparr>MX_EXCP_GONE = 101, MX_EXCP_IS_ARCH = (\<ge>) 99, NO_ERROR = 0,
              MX_OBJ_TYPE_THREAD = 2, sizeof_info_header = 16,
              sizeof_record_process_thread = 8, sizeof_info_handle_basic = 32\<rparr>
             \<lparr>wait_status = 0, excp_type = 1, excp_tid = 7, child_status = 0,
              suspended = \<lparr>regs = \<lparr>r8 = 0, r9 = 0x1000, rsp = 0x2000\<rparr>, mem = ucast\<rparr>,
              uninit_test_data = [], nread = 8, nwritten = 8, resume_status = 0\<rparr>))
          \<lparr>cpu = \<lparr>regs = \<lparr>r8 = 0, r9 = 0, rsp = 0x2000\<rparr>, mem = ucast\<rparr>,
           done_tests = False, trace = []\<rparr>)))) = [MSG_RECOVERED_FROM_CRASH]"
proof -
  let ?env = "\<lparr>pipe_handle = 3, segv_pc = 0x400000, test_data_at = 0x1000,
               readable = (\<le>) 0x1000\<rparr>"
  let ?p = "\<lparr>cpu = \<lparr>regs = \<lparr>r8 = 0, r9 = 0, rsp = 0x2000\<rparr>, mem = ucast\<rparr>,
           done_tests = False, trace = []\<rparr>"
  let ?abi = "\<lparr>MX_EXCP_GONE = 101, MX_EXCP_IS_ARCH = (\<ge>) 99, NO_ERROR = 0,
              MX_OBJ_TYPE_THREAD = 2, sizeof_info_header = 16,
              sizeof_record_process_thread = 8, sizeof_info_handle_basic = 32\<rparr>"
  let ?e = "\<lparr>wait_status = 0, excp_type = 1, excp_tid = 7, child_status = 0,
              suspended = \<lparr>regs = \<lparr>r8 = 0, r9 = 0x1000, rsp = 0x2000\<rparr>, mem = ucast\<rparr>,
              uninit_test_data = [], nread = 8, nwritten = 8, resume_status = 0\<rparr>"
  let ?fs = "replicate 4 (resumed_by_supervisor ?abi ?e)"
  let ?f = "\<lambda>c. Some (c\<lparr>regs := (regs c)\<lparr>r8 := rsp (regs c)\<rparr>\<rparr>)"
  let ?c' = "(segv_state ?env (cpu ?p))\<lparr>regs := (regs (segv_state ?env (cpu ?p)))
               \<lparr>r8 := rsp (regs (segv_state ?env (cpu ?p)))\<rparr>\<rparr>"
  have null: "\<not> readable ?env 0"
    by simp
  have usable: "readable ?env (r8 (regs ?c'))"
    by (simp add: rsp_segv_state)
  have m: "mem ?c' = seed_test_data (test_data_at ?env) (mem (cpu ?p))"
    by (simp add: mem_segv_state)
  have "mem ?c' (test_data_at ?env + of_nat 0) = of_nat 0"
    unfolding m by (rule seed_test_data_lookup) (simp add: TEST_MEMORY_SIZE_def)
  then have "\<not> (\<forall>i<TEST_MEMORY_SIZE. mem ?c' (test_data_at ?env + of_nat i)
                   = of_nat i + TEST_DATA_ADJUST)"
    by (auto simp: TEST_MEMORY_SIZE_def TEST_DATA_ADJUST_def intro!: exI [of _ 0])
  with test_prep_and_segv_verdict(1) [of ?env ?f ?p ?c' "[]", OF null _ usable]
  have "fst (test_prep_and_segv ?env [?f] ?p) = Returns False"
    by simp
  then obtain fs1 p1 where t: "test_prep_and_segv ?env [?f] ?p = (Returns False, fs1, p1)"
    by (cases "test_prep_and_segv ?env [?f] ?p") auto
  have c: "crash_loop ?env 0 [?f] ?p = (Exits 21, fs1, p1)"
    by (subst crash_loop.simps) (simp add: t NUM_SEGV_TRIES_def)
  have sw: "msg_switch ?env MSG_CRASH [?f] ?p = (Exits 21, fs1, p1)"
    by (simp add: msg_switch_def c)
  from crash_reply_only_after_all_cycles
         [where p = ?p and env = ?env and fs = "[?f]" and msgs = "[MSG_PING]"] sw
  have bad: "fst (msg_loop ?env [MSG_CRASH, MSG_PING] [?f] ?p) = Exits 21"
    "sent_messages (trace (snd (msg_loop ?env [MSG_CRASH, MSG_PING] [?f] ?p))) = []"
    by (simp_all add: Let_def events_since_def)
  have e: "resumes ?abi ?e" "TEST_MEMORY_SIZE \<le> nread ?e" "TEST_MEMORY_SIZE \<le> nwritten ?e"
    by (simp_all add: resumes_def TEST_MEMORY_SIZE_def)
  have "\<forall>f\<in>set ?fs. \<forall>fs' (p' :: process). rsp (regs (cpu p')) = 0x2000 \<longrightarrow>
      fst (test_prep_and_segv ?env (f # fs') p') = Returns True
      \<and> fst (snd (test_prep_and_segv ?env (f # fs') p')) = fs'
      \<and> rsp (regs (cpu (snd (snd (test_prep_and_segv ?env (f # fs') p'))))) = 0x2000"
  proof (intro ballI allI impI)
    fix f fs' and p' :: process
    assume "f \<in> set ?fs" and sp: "rsp (regs (cpu p')) = (0x2000 :: u64)"
    then have f: "f = resumed_by_supervisor ?abi ?e" by simp
    have r: "readable ?env (rsp (regs (cpu p')))"
      using sp by simp
    show "fst (test_prep_and_segv ?env (f # fs') p') = Returns True
      \<and> fst (snd (test_prep_and_segv ?env (f # fs') p')) = fs'
      \<and> rsp (regs (cpu (snd (snd (test_prep_and_segv ?env (f # fs') p'))))) = 0x2000"
      unfolding f
      using cycle_with_supervisor(1-3) [OF e(2,3,1) null r, of fs'] sp by simp
  qed
  then have "fst (crash_loop ?env 0 ?fs ?p) = Returns ()"
    by (rule crash_loop_all_verified) (simp_all add: NUM_SEGV_TRIES_def)
  then obtain fs2 p2 where c2: "crash_loop ?env 0 ?fs ?p = (Returns (), fs2, p2)"
    by (cases "crash_loop ?env 0 ?fs ?p") auto
  have sw2: "msg_switch ?env MSG_CRASH ?fs ?p
               = (Returns False, fs2, emit (Send MSG_RECOVERED_FROM_CRASH) p2)"
    by (simp add: msg_switch_def c2)
  from crash_reply_only_after_all_cycles
         [where p = ?p and env = ?env and fs = ?fs and msgs = "[]"] sw2
  have "sent_messages (trace (snd (snd (msg_switch ?env MSG_CRASH ?fs ?p))))
          = [MSG_RECOVERED_FROM_CRASH]"
    by (simp add: Let_def events_since_def)
  with bad show ?thesis by simp
qed

lemma watchdog_loop_fires:
  "i \<le> WATCHDOG_DURATION_TICKS \<Longrightarrow> \<forall>j. i \<le> j \<and> j < WATCHDOG_DURATION_TICKS \<longrightarrow> \<not> flag j \<Longrightarrow>
   watchdog_loop flag i = (Process_exit 5, WATCHDOG_DURATION_TICKS)"
proof (induction flag i rule: watchdog_loop.induct)
  case (1 flag i)
  show ?case
  proof (cases "i < WATCHDOG_DURATION_TICKS")
    case True
    with "1.prems" have nf: "\<not> flag i" by simp
    have "watchdog_loop flag i = watchdog_loop flag (Suc i)"
      using True nf by (subst watchdog_loop.simps) simp
    also have "\<dots> = (Process_exit 5, WATCHDOG_DURATION_TICKS)"
      using True nf "1.prems" by (intro "1.IH") simp_all
    finally show ?thesis .
  next
    case False
    with "1.prems" have "i = WATCHDOG_DURATION_TICKS" by simp
    then show ?thesis by (subst watchdog_loop.simps) simp
  qed
qed

lemma watchdog_loop_exits:
  "i \<le> k \<Longrightarrow> k < WATCHDOG_DURATION_TICKS \<Longrightarrow> flag k \<Longrightarrow> \<forall>j. i \<le> j \<and> j < k \<longrightarrow> \<not> flag j \<Longrightarrow>
   watchdog_loop flag i = (Thread_exit, Suc k)"
proof (induction flag i rule: watchdog_loop.induct)
  case (1 flag i)
  from "1.prems" have lt: "i < WATCHDOG_DURATION_TICKS" by simp
  show ?case
  proof (cases "i = k")
    case True
    with "1.prems" lt show ?thesis by (subst watchdog_loop.simps) simp
  next
    case False
    with "1.prems" have nf: "\<not> flag i" and "Suc i \<le> k" by simp_all
    have "watchdog_loop flag i = watchdog_loop flag (Suc i)"
      using lt nf by (subst watchdog_loop.simps) simp
    also have "\<dots> = (Thread_exit, Suc k)"
      using lt nf "1.prems" \<open>Suc i \<le> k\<close> by (intro "1.IH") simp_all
    finally show ?thesis .
  qed
qed

lemma watchdog_loop_ticks: "i \<le> WATCHDOG_DURATION_TICKS \<Longrightarrow> snd (watchdog_loop flag i) \<le> WATCHDOG_DURATION_TICKS"
proof (induction flag i rule: watchdog_loop.induct)
  case (1 flag i)
  show ?case
  proof (cases "i < WATCHDOG_DURATION_TICKS \<and> \<not> flag i")
    case True
    then have "watchdog_loop flag i = watchdog_loop flag (Suc i)"
      by (subst watchdog_loop.simps) simp
    moreover have "snd (watchdog_loop flag (Suc i)) \<le> WATCHDOG_DURATION_TICKS"
      using True by (intro "1.IH") simp_all
    ultimately show ?thesis by simp
  next
    case False
    with "1.prems" show ?thesis by (subst watchdog_loop.simps) auto
  qed
qed

text \<open>
  Claim C3. The watchdog sleeps one tick before each poll of done_tests and polls at most
  WATCHDOG_DURATION_TICKS times. If poll k is the first to read true, the thread exits
  after k + 1 ticks and the process goes on. If all WATCHDOG_DURATION_TICKS polls read
  false, the process exits with code 5 after exactly that many ticks.
\<close>

theorem watchdog_polls_then_fires:
  "(k < WATCHDOG_DURATION_TICKS \<and> flag k \<and> (\<forall>j<k. \<not> flag j) \<longrightarrow>
      watchdog_thread_func flag = (Thread_exit, Suc k))
   \<and> ((\<forall>j<WATCHDOG_DURATION_TICKS. \<not> flag j) \<longrightarrow>
      watchdog_thread_func flag = (Process_exit 5, WATCHDOG_DURATION_TICKS))
   \<and> snd (watchdog_thread_func flag) \<le> WATCHDOG_DURATION_TICKS"
  unfolding watchdog_thread_func_def
  using watchdog_loop_exits [of 0 k flag] watchdog_loop_fires [of 0 flag]
    watchdog_loop_ticks [of 0 flag]
  by simp

text \<open>The flag true from poll 3 on, and the flag never true.\<close>

theorem watchdog_polls_then_fires_witness:
  "watchdog_thread_func ((\<le>) 3) = (Thread_exit, 4)
   \<and> watchdog_thread_func ((>) 0) = (Process_exit 5, 10)"
  using watchdog_polls_then_fires [of 3 "(\<le>) 3"] watchdog_polls_then_fires [of 0 "(>) 0"]
  by (simp add: WATCHDOG_DURATION_TICKS_def)

lemma main_inferior:
  assumes "length argv \<ge> 2 \<and> argv ! 1 = test_inferior_child_name"
  shows "main argv env =
     (case test_inferior (inf_env env) (main_inbox env) (fault_answers env)
             \<lparr>cpu = initial_cpu env, done_tests = False, trace = []\<rparr> of
        (Returns u, p') \<Rightarrow> (Returns 0, p')
      | (Exits c, p') \<Rightarrow> (Exits c, p')
      | (Blocks, p') \<Rightarrow> (Blocks, p')
      | (Crashes, p') \<Rightarrow> (Crashes, p'))"
  unfolding main_def Let_def by (simp only: assms if_True simp_thms)

lemma main_segfault:
  assumes "\<not> (length argv \<ge> 2 \<and> argv ! 1 = test_inferior_child_name)"
      and "length argv \<ge> 2 \<and> argv ! 1 = test_segfault_child_name"
  shows "main argv env = (Crashes, \<lparr>cpu = initial_cpu env, done_tests = False, trace = []\<rparr>)"
proof -
  have a: "(2 \<le> length argv \<and> argv ! 1 = test_inferior_child_name) = False"
    using assms(1) by simp
  have b: "(2 \<le> length argv \<and> argv ! 1 = test_segfault_child_name) = True"
    using assms(2) by simp
  show ?thesis
    unfolding main_def Let_def a b by (simp only: if_False if_True)
qed

lemma main_driver:
  assumes "\<not> (length argv \<ge> 2 \<and> argv ! 1 = test_inferior_child_name)"
      and "\<not> (length argv \<ge> 2 \<and> argv ! 1 = test_segfault_child_name)"
  shows "main argv env =
     (case watchdog_thread_func
             (\<lambda>i. case polls_before_done env of None \<Rightarrow> False | Some n \<Rightarrow> n \<le> i) of
        (Process_exit c, ticks) \<Rightarrow>
          (Exits c, \<lparr>cpu = initial_cpu env, done_tests = False,
                     trace = [Thread_create ''watchdog-thread'', Print ''WATCHDOG TIMER FIRED'' []]\<rparr>)
      | (Thread_exit, ticks) \<Rightarrow>
          (Returns (if tests_succeed env then 0 else - 1),
           \<lparr>cpu = initial_cpu env, done_tests = True,
            trace = [Thread_create ''watchdog-thread'', Store_done_tests True]\<rparr>))"
  unfolding main_def Let_def
  by (simp only: assms if_False) (simp add: emit_def split: prod.split watchdog_end.split)

lemma test_inferior_stores:
  "done_tests_stores (trace (snd (test_inferior env msgs fs p)))
     = done_tests_stores (trace p)
       @ (if fst (test_inferior env msgs fs p) = Exits 1234 then [True] else [])
   \<and> done_tests (snd (test_inferior env msgs fs p))
     = (done_tests p \<or> fst (test_inferior env msgs fs p) = Exits 1234)
   \<and> fst (test_inferior env msgs fs p) \<in> {Exits 1234, Exits 20, Exits 21, Blocks}"
proof -
  let ?p0 = "emit (Print ''test_inferior: got handle %d'' [Arg_u32 (pipe_handle env)]) p"
  obtain r p' evs where
    l: "msg_loop env msgs fs ?p0 = (r, p')"
       "done_tests p' = done_tests ?p0" "trace p' = trace ?p0 @ evs" "done_tests_stores evs = []"
       "r = Returns True \<or> r = Returns False \<or> r = Exits 21 \<or> r = Blocks"
    using msg_loop_quiet [of env msgs fs ?p0] by blast
  have t: "test_inferior env msgs fs p =
     (case r of
        Returns ok \<Rightarrow>
          (if \<not> ok then (Exits 20, p')
           else (Exits 1234,
                 p'\<lparr>done_tests := True,
                    trace := trace p' @ [Store_done_tests True, Print ''Inferior done'' []]\<rparr>))
      | Exits c \<Rightarrow> (Exits c, p') | Blocks \<Rightarrow> (Blocks, p') | Crashes \<Rightarrow> (Crashes, p'))"
    unfolding test_inferior_def Let_def l(1)
    by (simp add: emit_def split: result.split)
  from l(5) show ?thesis
  proof (elim disjE)
    assume "r = Returns True"
    then show ?thesis using l(2-4) by (simp add: t emit_def done_tests_stores_append)
  next
    assume "r = Returns False"
    then show ?thesis using l(2-4) by (simp add: t emit_def done_tests_stores_append)
  next
    assume "r = Exits 21"
    then show ?thesis using l(2-4) by (simp add: t emit_def done_tests_stores_append)
  next
    assume "r = Blocks"
    then show ?thesis using l(2-4) by (simp add: t emit_def done_tests_stores_append)
  qed
qed

text \<open>
  Claim C9. In every run of main, in each of the three roles, the values stored to
  done_tests are none or the single value true, and the flag is true at the end exactly
  when that store happened: from its initial false it goes to true at most once and never
  back.
\<close>

theorem done_tests_stored_once_true:
  "done_tests_stores (trace (snd (main argv env))) \<in> {[], [True]}
   \<and> done_tests (snd (main argv env)) = (done_tests_stores (trace (snd (main argv env))) = [True])"
proof -
  let ?p = "\<lparr>cpu = initial_cpu env, done_tests = False, trace = []\<rparr>"
  consider (inferior) "length argv \<ge> 2 \<and> argv ! 1 = test_inferior_child_name"
    | (segfault) "\<not> (length argv \<ge> 2 \<and> argv ! 1 = test_inferior_child_name)"
        "length argv \<ge> 2 \<and> argv ! 1 = test_segfault_child_name"
    | (driver) "\<not> (length argv \<ge> 2 \<and> argv ! 1 = test_inferior_child_name)"
        "\<not> (length argv \<ge> 2 \<and> argv ! 1 = test_segfault_child_name)"
    by blast
  then show ?thesis
  proof cases
    case inferior
    obtain r p' where t: "test_inferior (inf_env env) (main_inbox env) (fault_answers env) ?p = (r, p')"
      by (cases "test_inferior (inf_env env) (main_inbox env) (fault_answers env) ?p")
    from test_inferior_stores [of "inf_env env" "main_inbox env" "fault_answers env" ?p]
    have st: "done_tests_stores (trace p') = (if r = Exits 1234 then [True] else [])"
      and d: "done_tests p' = (r = Exits 1234)"
      and r: "r \<in> {Exits 1234, Exits 20, Exits 21, Blocks}"
      by (simp_all add: t)
    have "snd (main argv env) = p'"
      using r by (auto simp: main_inferior [OF inferior] t)
    then show ?thesis using st d by simp
  next
    case segfault
    then show ?thesis by (simp add: main_segfault)
  next
    case driver
    obtain w ticks where w: "watchdog_thread_func
        (\<lambda>i. case polls_before_done env of None \<Rightarrow> False | Some n \<Rightarrow> n \<le> i) = (w, ticks)"
      by (cases "watchdog_thread_func
        (\<lambda>i. case polls_before_done env of None \<Rightarrow> False | Some n \<Rightarrow> n \<le> i)")
    show ?thesis
      by (cases w) (simp_all add: main_driver [OF driver] w)
  qed
qed

text \<open>An inferior run that stores once, and a driver run the watchdog ends before the store.\<close>

theorem done_tests_stored_once_true_witness:
  "done_tests_stores (trace (snd (main [''debugger'', ''inferior'']
      \<lparr>inf_env = \<lparr>pipe_handle = 3, segv_pc = 0x400000, test_data_at = 0x1000,
       readable = (\<le>) 0x1000\<rparr>,
       main_inbox = [MSG_PING, MSG_DONE], fault_answers = [], tests_succeed = True,
       polls_before_done = Some 2,
       initial_cpu = \<lparr>regs = \<lparr>r8 = 0, r9 = 0, rsp = 0x2000\<rparr>, mem = ucast\<rparr>\<rparr>))) = [True]
   \<and> done_tests_stores (trace (snd (main [''debugger'']
      \<lparr>inf_env = \<lparr>pipe_handle = 3, segv_pc = 0x400000, test_data_at = 0x1000,
       readable = (\<le>) 0x1000\<rparr>,
       main_inbox = [], fault_answers = [], tests_succeed = True,
       polls_before_done = None,
       initial_cpu = \<lparr>regs = \<lparr>r8 = 0, r9 = 0, rsp = 0x2000\<rparr>, mem = ucast\<rparr>\<rparr>))) = []"
proof -
  let ?env1 = "\<lparr>inf_env = \<lparr>pipe_handle = 3, segv_pc = 0x400000, test_data_at = 0x1000,
       readable = (\<le>) 0x1000\<rparr>,
       main_inbox = [MSG_PING, MSG_DONE], fault_answers = [], tests_succeed = True,
       polls_before_done = Some 2,
       initial_cpu = \<lparr>regs = \<lparr>r8 = 0, r9 = 0, rsp = 0x2000\<rparr>, mem = ucast\<rparr>\<rparr>"
  let ?env2 = "\<lparr>inf_env = \<lparr>pipe_handle = 3, segv_pc = 0x400000, test_data_at = 0x1000,
       readable = (\<le>) 0x1000\<rparr>,
       main_inbox = [], fault_answers = [], tests_succeed = True,
       polls_before_done = None,
       initial_cpu = \<lparr>regs = \<lparr>r8 = 0, r9 = 0, rsp = 0x2000\<rparr>, mem = ucast\<rparr>\<rparr>"
  have 1: "done_tests (snd (main [''debugger'', ''inferior''] ?env1))"
    by (simp add: main_def Let_def test_inferior_child_name_def test_inferior_def emit_def
          msg_switch_def)
  have 2: "\<not> done_tests (snd (main [''debugger''] ?env2))"
    by (simp add: main_driver watchdog_thread_func_def watchdog_loop_fires
          WATCHDOG_DURATION_TICKS_def)
  from done_tests_stored_once_true [of "[''debugger'', ''inferior'']" ?env1]
       done_tests_stored_once_true [of "[''debugger'']" ?env2] 1 2
  show ?thesis by auto
qed

lemma fold_verify_thread_entry_ok:
  assumes "\<forall>i\<in>set xs. fst (get_child a (rec_koid a i)) = 0
             \<and> handle_basic a (snd (get_child a (rec_koid a i)))
                 = (sizeof_info_handle_basic abi, MX_OBJ_TYPE_THREAD abi)"
  shows "fold (verify_thread_entry abi a) xs fails = fails"
  using assms
  by (induction xs arbitrary: fails)
     (simp_all add: verify_thread_entry_def Let_def split_def EXPECT_def)

lemma length_inferior_threads:
  "length (inferior_threads main_koid extra_koid tr)
     = 1 + length (filter (\<lambda>ev. ev = Thread_create ''extra-thread'') tr)"
  by (simp add: inferior_threads_def)

lemma fold_verify_thread_entry_Nil:
  "fold (verify_thread_entry abi a) xs fails = [] \<Longrightarrow>
   fails = []
   \<and> (\<forall>i\<in>set xs. fst (get_child a (rec_koid a i)) = 0
         \<and> snd (handle_basic a (snd (get_child a (rec_koid a i)))) = MX_OBJ_TYPE_THREAD abi)"
proof (induction xs arbitrary: fails)
  case Nil then show ?case by simp
next
  case (Cons x xs)
  from Cons.prems have "fold (verify_thread_entry abi a) xs (verify_thread_entry abi a x fails) = []"
    by simp
  from Cons.IH [OF this]
  have step: "verify_thread_entry abi a x fails = []"
    and rest: "\<forall>i\<in>set xs. fst (get_child a (rec_koid a i)) = 0
         \<and> snd (handle_basic a (snd (get_child a (rec_koid a i)))) = MX_OBJ_TYPE_THREAD abi"
    by simp_all
  from step have "fails = [] \<and> fst (get_child a (rec_koid a x)) = 0
         \<and> snd (handle_basic a (snd (get_child a (rec_koid a x)))) = MX_OBJ_TYPE_THREAD abi"
    by (simp add: verify_thread_entry_def Let_def split_def EXPECT_def split: if_splits)
  with rest show ?case by simp
qed

lemma thread_list_test_passes:
  assumes "fst (debugger_thread_list_test abi b)"
  shows "sizeof_info_header abi + (1 + NUM_EXTRA_THREADS) * sizeof_record_process_thread abi
           \<le> info_size b
       \<and> (\<forall>i<hdr_count b. fst (get_child b (rec_koid b i)) = 0
             \<and> snd (handle_basic b (snd (get_child b (rec_koid b i)))) = MX_OBJ_TYPE_THREAD abi)"
proof -
  from assms have size: "sizeof_info_header abi
      + (1 + NUM_EXTRA_THREADS) * sizeof_record_process_thread abi \<le> info_size b"
    by (simp add: debugger_thread_list_test_def Let_def split: if_splits option.splits)
  from assms obtain fails where
    "fold (verify_thread_entry abi b) [0..<hdr_count b] fails = []"
    by (auto simp: debugger_thread_list_test_def Let_def split: if_splits option.splits)
  from fold_verify_thread_entry_Nil [OF this] size show ?thesis by simp
qed

text \<open>
  Claim C6. For MSG_START_EXTRA_THREADS the inferior creates NUM_EXTRA_THREADS threads
  and only then sends MSG_EXTRA_THREADS_STARTED. Enumerating its threads after that reply
  gives at least 1 + NUM_EXTRA_THREADS entries, every entry's koid resolves with status 0
  to a handle whose object type is MX_OBJ_TYPE_THREAD, and debugger_thread_list_test
  passes with no failure. And the test passes on any answers only if the returned size
  covers 1 + NUM_EXTRA_THREADS records and every entry resolves to a thread.
\<close>

theorem extra_threads_are_enumerated:
  "(case msg_switch env MSG_START_EXTRA_THREADS fs p of
      (r, fs', p') \<Rightarrow>
        (let evs = events_since p p';
             ts = inferior_threads main_koid extra_koid (trace p');
             a = kernel_thread_answers abi ts (Some (last (sent_messages evs)))
         in evs = replicate NUM_EXTRA_THREADS (Thread_create ''extra-thread'')
                    @ [Send MSG_EXTRA_THREADS_STARTED]
            \<and> 1 + NUM_EXTRA_THREADS \<le> hdr_count a
            \<and> (\<forall>i<hdr_count a.
                  fst (get_child a (rec_koid a i)) = 0
                  \<and> snd (handle_basic a (snd (get_child a (rec_koid a i)))) = MX_OBJ_TYPE_THREAD abi)
            \<and> debugger_thread_list_test abi a = (True, [], [MSG_START_EXTRA_THREADS])))
   \<and> (\<forall>b. fst (debugger_thread_list_test abi b) \<longrightarrow>
          sizeof_info_header abi + (1 + NUM_EXTRA_THREADS) * sizeof_record_process_thread abi
            \<le> info_size b
          \<and> (\<forall>i<hdr_count b.
                fst (get_child b (rec_koid b i)) = 0
                \<and> snd (handle_basic b (snd (get_child b (rec_koid b i)))) = MX_OBJ_TYPE_THREAD abi))"
proof -
  define p' where "p' = emit (Send MSG_EXTRA_THREADS_STARTED) (start_extra_threads p)"
  define ts where "ts = inferior_threads main_koid extra_koid (trace p')"
  define a where "a = kernel_thread_answers abi ts (Some MSG_EXTRA_THREADS_STARTED)"
  have sw: "msg_switch env MSG_START_EXTRA_THREADS fs p = (Returns False, fs, p')"
    by (simp add: msg_switch_def p'_def)
  have evs: "events_since p p' = replicate NUM_EXTRA_THREADS (Thread_create ''extra-thread'')
                    @ [Send MSG_EXTRA_THREADS_STARTED]"
    by (simp add: events_since_def p'_def trace_emit trace_start_extra_threads)
  have sent: "last (sent_messages (events_since p p')) = MSG_EXTRA_THREADS_STARTED"
    by (simp add: evs sent_messages_append NUM_EXTRA_THREADS_def numeral_eq_Suc)
  have "trace p' = trace p @ replicate NUM_EXTRA_THREADS (Thread_create ''extra-thread'')
                    @ [Send MSG_EXTRA_THREADS_STARTED]"
    by (simp add: p'_def trace_emit trace_start_extra_threads)
  then have len: "1 + NUM_EXTRA_THREADS \<le> length ts"
    by (simp add: ts_def length_inferior_threads)
  have cnt: "hdr_count a = length ts"
    by (simp add: a_def kernel_thread_answers_def)
  have entry: "fst (get_child a (rec_koid a i)) = 0
         \<and> handle_basic a (snd (get_child a (rec_koid a i)))
             = (sizeof_info_handle_basic abi, MX_OBJ_TYPE_THREAD abi)"
    if "i < length ts" for i
    using that by (simp add: a_def kernel_thread_answers_def)
  have fold: "fold (verify_thread_entry abi a) [0..<length ts] [] = []"
    by (rule fold_verify_thread_entry_ok) (simp add: entry)
  have size: "sizeof_info_header abi + (1 + NUM_EXTRA_THREADS) * sizeof_record_process_thread abi
                \<le> info_size a"
  proof -
    have "(1 + NUM_EXTRA_THREADS) * sizeof_record_process_thread abi
            \<le> length ts * sizeof_record_process_thread abi"
      using len by (rule mult_le_mono1)
    then show ?thesis
      by (simp add: a_def kernel_thread_answers_def)
  qed
  have test: "debugger_thread_list_test abi a = (True, [], [MSG_START_EXTRA_THREADS])"
  proof -
    have fields: "setup_ok a" "reply a = Some MSG_EXTRA_THREADS_STARTED"
      "info_status a = NO_ERROR abi" "shutdown_ok a"
      by (simp_all add: a_def kernel_thread_answers_def)
    show ?thesis
      using size fold
      by (simp add: debugger_thread_list_test_def Let_def EXPECT_def fields cnt)
  qed
  have model: "(case msg_switch env MSG_START_EXTRA_THREADS fs p of
      (r, fs', p') \<Rightarrow>
        (let evs = events_since p p';
             ts = inferior_threads main_koid extra_koid (trace p');
             a = kernel_thread_answers abi ts (Some (last (sent_messages evs)))
         in evs = replicate NUM_EXTRA_THREADS (Thread_create ''extra-thread'')
                    @ [Send MSG_EXTRA_THREADS_STARTED]
            \<and> 1 + NUM_EXTRA_THREADS \<le> hdr_count a
            \<and> (\<forall>i<hdr_count a.
                  fst (get_child a (rec_koid a i)) = 0
                  \<and> snd (handle_basic a (snd (get_child a (rec_koid a i)))) = MX_OBJ_TYPE_THREAD abi)
            \<and> debugger_thread_list_test abi a = (True, [], [MSG_START_EXTRA_THREADS])))"
    unfolding sw prod.case Let_def sent ts_def [symmetric] a_def [symmetric]
    using evs len cnt entry test by simp
  show ?thesis
    using model thread_list_test_passes [of abi] by blast
qed

text \<open>The thread list test on the kernel's answers after the reply, from a concrete state.\<close>

theorem extra_threads_are_enumerated_witness:
  "debugger_thread_list_test
     \<lparr>MX_EXCP_GONE = 101, MX_EXCP_IS_ARCH = (\<ge>) 99, NO_ERROR = 0, MX_OBJ_TYPE_THREAD = 2,
      sizeof_info_header = 16, sizeof_record_process_thread = 8, sizeof_info_handle_basic = 32\<rparr>
     (kernel_thread_answers
        \<lparr>MX_EXCP_GONE = 101, MX_EXCP_IS_ARCH = (\<ge>) 99, NO_ERROR = 0, MX_OBJ_TYPE_THREAD = 2,
         sizeof_info_header = 16, sizeof_record_process_thread = 8, sizeof_info_handle_basic = 32\<rparr>
        (inferior_threads 1000 of_nat
           (trace (snd (snd (msg_switch
              \<lparr>pipe_handle = 3, segv_pc = 0x400000, test_data_at = 0x1000,
       readable = (\<le>) 0x1000\<rparr>
              MSG_START_EXTRA_THREADS []
              \<lparr>cpu = \<lparr>regs = \<lparr>r8 = 0, r9 = 0, rsp = 0x2000\<rparr>, mem = ucast\<rparr>,
               done_tests = False, trace = []\<rparr>)))))
        (Some MSG_EXTRA_THREADS_STARTED))
   = (True, [], [MSG_START_EXTRA_THREADS])"
proof -
  let ?abi = "\<lparr>MX_EXCP_GONE = 101, MX_EXCP_IS_ARCH = (\<ge>) 99, NO_ERROR = 0, MX_OBJ_TYPE_THREAD = 2,
      sizeof_info_header = 16, sizeof_record_process_thread = 8, sizeof_info_handle_basic = 32\<rparr>"
  let ?env = "\<lparr>pipe_handle = 3, segv_pc = 0x400000, test_data_at = 0x1000,
       readable = (\<le>) 0x1000\<rparr>"
  let ?p = "\<lparr>cpu = \<lparr>regs = \<lparr>r8 = 0, r9 = 0, rsp = 0x2000\<rparr>, mem = ucast\<rparr>,
           done_tests = False, trace = []\<rparr>"
  obtain r fs' p' where sw: "msg_switch ?env MSG_START_EXTRA_THREADS [] ?p = (r, fs', p')"
    by (cases "msg_switch ?env MSG_START_EXTRA_THREADS [] ?p") auto
  from extra_threads_are_enumerated
         [where env = ?env and fs = "[]" and p = ?p and main_koid = 1000 and extra_koid = of_nat
            and abi = ?abi]
  have evs: "events_since ?p p' = replicate NUM_EXTRA_THREADS (Thread_create ''extra-thread'')
                    @ [Send MSG_EXTRA_THREADS_STARTED]"
    and test: "debugger_thread_list_test ?abi
        (kernel_thread_answers ?abi (inferior_threads 1000 of_nat (trace p'))
           (Some (last (sent_messages (events_since ?p p')))))
      = (True, [], [MSG_START_EXTRA_THREADS])"
    unfolding sw prod.case Let_def by blast+
  have "last (sent_messages (events_since ?p p')) = MSG_EXTRA_THREADS_STARTED"
    by (simp add: evs sent_messages_append)
  with test sw show ?thesis by simp
qed

end
